theory Spec2Isabelle
  imports
    Main
    "HOL-Library.Word"
    "HOL-Library.AList"
    "HOL-Library.Sublist"
    "HOL-Library.Char_ord"
    "HOL-Library.List_Lexorder"
begin

section \<open>The stack model (pkg/model/stack.go)\<close>

text \<open>
  A Go \<^verbatim>\<open>map[string]T\<close> is an association list with distinct keys, listed in the
  order in which a \<^verbatim>\<open>range\<close> loop visits its entries. Go leaves that order
  unspecified, so every list order of the same entries is a possible run. A lookup
  \<^verbatim>\<open>m[k]\<close> is \<open>map_of m k\<close>; writing \<^verbatim>\<open>m[k] = v\<close> for the entry being visited
  replaces that entry in place.

  The wrapper types \<^verbatim>\<open>Entrypoint\<close>, \<^verbatim>\<open>Command\<close> and \<^verbatim>\<open>Args\<close> hold one field
  \<^verbatim>\<open>Values []string\<close> and are modelled as that list. A \<^verbatim>\<open>resource.Quantity\<close> is an
  amount counted in its smallest unit, compared by \<^verbatim>\<open>Cmp\<close> as a number.
\<close>

type_synonym Quantity = int

record EnvVar =
  EnvVar_Name :: string
  EnvVar_Value :: string

record BuildInfo =
  Build_Name :: string
  Build_Context :: string
  Build_Dockerfile :: string
  Build_Target :: string
  Build_CacheFrom :: "string list"
  Build_Args :: "EnvVar list"

record StorageResource =
  Size :: Quantity
  Class :: string

record ServiceResources =
  CPU :: Quantity
  Memory :: Quantity
  Storage :: StorageResource

record StackResources =
  Limits :: ServiceResources
  Requests :: ServiceResources

record Service =
  Labels :: "(string \<times> string) list"
  Annotations :: "(string \<times> string) list"
  Public :: bool
  Image :: string
  Build :: "BuildInfo option"
  Replicas :: "32 word"
  Entrypoint :: "string list"
  Command :: "string list"
  Args :: "string list"
  Environment :: "EnvVar list"
  EnvFiles :: "string list"
  CapAdd :: "string list"
  CapDrop :: "string list"
  Healthchecks :: bool
  Ports :: "32 word list"
  Expose :: "32 word list"
  Volumes :: "string list"
  StopGracePeriod :: "64 word"
  Resources :: StackResources

record Endpoint =
  Path :: string
  EndpointService :: string
  Port :: "32 word"

record Stack =
  Name :: string
  Namespace :: string
  Services :: "(string \<times> Service) list"
  Endpoints :: "(string \<times> Endpoint list) list"
  Manifest :: "8 word list"

text \<open>
  Errors are values. Each constructor stands for one message of the source and carries
  the entities that the message names. \<open>ErrNotFound\<close> is the registry's sentinel
  \<^verbatim>\<open>errors.ErrNotFound\<close>; \<open>External\<close> is any other error of a collaborator.
\<close>

datatype error =
    NameEmpty
  | BadStackName
  | InvalidStackName error
  | ServicesEmpty
  | EndpointServiceMissing string string
  | EndpointPortMissing string string "32 word"
  | InvalidServiceName string error
  | ImageEmpty string
  | VolumeNotAbsolute string string
  | VolumeBindMount string string
  | EnvFileParse string string
  | BuildAndImageEmpty string
  | BuildFailed string error
  | ErrNotFound
  | External string

subsection \<open>Strings\<close>

definition HasPrefix :: "string \<Rightarrow> string \<Rightarrow> bool" where
  "HasPrefix s p = (take (length p) s = p)"

definition HasSuffix :: "string \<Rightarrow> string \<Rightarrow> bool" where
  "HasSuffix s p = (length p \<le> length s \<and> drop (length s - length p) s = p)"

fun Contains :: "string \<Rightarrow> string \<Rightarrow> bool" where
  "Contains [] sub = (sub = [])"
| "Contains (c # cs) sub = (HasPrefix (c # cs) sub \<or> Contains cs sub)"

subsection \<open>Defaulting (the loop of ReadStack)\<close>

text \<open>
  \<^verbatim>\<open>setBuildDefaults\<close> is declared outside the files at hand and is a parameter
  \<open>sbd\<close>. It receives the pointer \<^verbatim>\<open>svc.Build\<close>, so what it writes is seen through
  the service.
\<close>

definition defaultService :: "(BuildInfo \<Rightarrow> BuildInfo) \<Rightarrow> Service \<Rightarrow> Service" where
  "defaultService sbd svc =
    (let svc1 = (case Build svc of
                   None \<Rightarrow> svc
                 | Some b \<Rightarrow>
                     (let b1 = (if Build_Name b \<noteq> []
                                then b\<lparr>Build_Context := Build_Name b, Build_Name := []\<rparr>
                                else b)
                      in svc\<lparr>Build := Some (sbd b1)\<rparr>));
         svc2 = (if Replicas svc1 = 0 then svc1\<lparr>Replicas := 1\<rparr> else svc1);
         svc3 = (if length (Entrypoint svc2) > 0
                 then svc2\<lparr>Args := Command svc2, Command := Entrypoint svc2\<rparr>
                 else svc2);
         svc4 = (if length (Expose svc3) > 0 \<and> length (Ports svc3) = 0
                 then svc3\<lparr>Public := False\<rparr> else svc3);
         svc5 = (if length (Expose svc4) > 0
                 then svc4\<lparr>Ports := Ports svc4 @ Expose svc4\<rparr> else svc4)
     in svc5)"

definition ReadStack_defaults :: "(BuildInfo \<Rightarrow> BuildInfo) \<Rightarrow> Stack \<Rightarrow> Stack" where
  "ReadStack_defaults sbd s =
     s\<lparr>Services := map (\<lambda>(i, svc). (i, defaultService sbd svc)) (Services s)\<rparr>"

subsection \<open>Validation\<close>

text \<open>
  Modelled from the spec: \<^verbatim>\<open>ValidKubeNameRegex\<close> is declared outside the files at
  hand. The spec's identifier rule is "lowercase alphanumeric and \<^verbatim>\<open>-\<close>"; the source
  rejects a name that the expression matches, so the expression matches a name holding
  a character outside that alphabet.
\<close>

definition ValidKubeNameRegex_MatchString :: "string \<Rightarrow> bool" where
  "ValidKubeNameRegex_MatchString name =
     (\<exists>c \<in> set name. c \<notin> set ''abcdefghijklmnopqrstuvwxyz0123456789-'')"

definition validateStackName :: "string \<Rightarrow> error option" where
  "validateStackName name =
     (if name = [] then Some NameEmpty
      else if ValidKubeNameRegex_MatchString name then Some BadStackName
      else if HasPrefix name ''-'' \<or> HasSuffix name ''-'' then Some BadStackName
      else None)"

fun IsPortInService :: "32 word \<Rightarrow> 32 word list \<Rightarrow> bool" where
  "IsPortInService port [] = False"
| "IsPortInService port (p # portList) = (if p = port then True else IsPortInService port portList)"

fun validateEndpointList :: "Stack \<Rightarrow> string \<Rightarrow> Endpoint list \<Rightarrow> error option" where
  "validateEndpointList s endpointName [] = None"
| "validateEndpointList s endpointName (endpoint # endpoints) =
     (case map_of (Services s) (EndpointService endpoint) of
        None \<Rightarrow> Some (EndpointServiceMissing endpointName (EndpointService endpoint))
      | Some service \<Rightarrow>
          if IsPortInService (Port endpoint) (Ports service)
          then Some (EndpointPortMissing endpointName (EndpointService endpoint) (Port endpoint))
          else validateEndpointList s endpointName endpoints)"

fun validateEndpoints :: "Stack \<Rightarrow> (string \<times> Endpoint list) list \<Rightarrow> error option" where
  "validateEndpoints s [] = None"
| "validateEndpoints s ((endpointName, endpoints) # rest) =
     (case validateEndpointList s endpointName endpoints of
        Some e \<Rightarrow> Some e
      | None \<Rightarrow> validateEndpoints s rest)"

fun validateVolumes :: "string \<Rightarrow> string list \<Rightarrow> error option" where
  "validateVolumes name [] = None"
| "validateVolumes name (v # vs) =
     (if \<not> HasPrefix v ''/'' then Some (VolumeNotAbsolute v name)
      else if Contains v '':'' then Some (VolumeBindMount v name)
      else validateVolumes name vs)"

fun validateServices :: "(string \<times> Service) list \<Rightarrow> error option" where
  "validateServices [] = None"
| "validateServices ((name, svc) # rest) =
     (case validateStackName name of
        Some e \<Rightarrow> Some (InvalidServiceName name e)
      | None \<Rightarrow>
          if Image svc = [] \<and> Build svc = None then Some (ImageEmpty name)
          else (case validateVolumes name (Volumes svc) of
                  Some e \<Rightarrow> Some e
                | None \<Rightarrow> validateServices rest))"

definition validate :: "Stack \<Rightarrow> error option" where
  "validate s =
     (case validateStackName (Name s) of
        Some e \<Rightarrow> Some (InvalidStackName e)
      | None \<Rightarrow>
          if length (Services s) = 0 then Some ServicesEmpty
          else (case validateEndpoints s (Endpoints s) of
                  Some e \<Rightarrow> Some e
                | None \<Rightarrow> validateServices (Services s)))"

section \<open>Translation (package stack)\<close>

text \<open>
  The constants of \<^verbatim>\<open>pkg/k8s/labels\<close> are declared outside the files at hand and
  are parameters. Go rejects a map literal with two equal constant keys, so the two keys
  of the literal in \<^verbatim>\<open>translateLabels\<close> differ in every program that compiles.
\<close>

record okLabels =
  StackNameLabel :: string
  StackServiceNameLabel :: string
  LastBuiltAnnotation :: string

subsection \<open>Environment resolution\<close>

text \<open>
  The ambient environment and the file system are collaborators: \<open>ExpandEnv\<close> is
  \<^verbatim>\<open>model.ExpandEnv\<close>, \<open>os_Open\<close> gives the bytes of a file, \<open>StrictParse\<close> is
  \<^verbatim>\<open>gotenv.StrictParse\<close>, whose result is a Go map (or the text of its error).
\<close>

record EnvCollab =
  ExpandEnv :: "string \<Rightarrow> error + string"
  os_Open :: "string \<Rightarrow> error + string"
  StrictParse :: "string \<Rightarrow> string + (string \<times> string) list"

definition translateServiceEnvFile :: "EnvCollab \<Rightarrow> Service \<Rightarrow> string \<Rightarrow> error + Service" where
  "translateServiceEnvFile c svc filename =
     (case ExpandEnv c filename of
        Inl err \<Rightarrow> Inl err
      | Inr filename' \<Rightarrow>
          (case os_Open c filename' of
             Inl err \<Rightarrow> Inl err
           | Inr f \<Rightarrow>
               (case StrictParse c f of
                  Inl msg \<Rightarrow> Inl (EnvFileParse filename' msg)
                | Inr envMap \<Rightarrow>
                    (let envMap' = foldl (\<lambda>m e. AList.delete (EnvVar_Name e) m) envMap (Environment svc)
                     in Inr (svc\<lparr>Environment := Environment svc @
                               map (\<lambda>(name, value). \<lparr>EnvVar_Name = name, EnvVar_Value = value\<rparr>) envMap'\<rparr>)))))"

fun translateServiceEnvFiles :: "EnvCollab \<Rightarrow> Service \<Rightarrow> string list \<Rightarrow> error + Service" where
  "translateServiceEnvFiles c svc [] = Inr svc"
| "translateServiceEnvFiles c svc (envFilepath # rest) =
     (case translateServiceEnvFile c svc envFilepath of
        Inl err \<Rightarrow> Inl err
      | Inr svc' \<Rightarrow> translateServiceEnvFiles c svc' rest)"

text \<open>
  The body of the loop of \<^verbatim>\<open>translateStackEnvVars\<close> for one service.
  \<^verbatim>\<open>sort.SliceStable\<close> with \<^verbatim>\<open>strings.Compare\<close> is a stable sort on the names, compared
  byte by byte.
\<close>

definition translateServiceEnvVars :: "EnvCollab \<Rightarrow> Service \<Rightarrow> error + Service" where
  "translateServiceEnvVars c svc =
     (case ExpandEnv c (Image svc) of
        Inl err \<Rightarrow> Inl err
      | Inr img \<Rightarrow>
          (case translateServiceEnvFiles c (svc\<lparr>Image := img\<rparr>) (EnvFiles svc) of
             Inl err \<Rightarrow> Inl err
           | Inr svc' \<Rightarrow>
               Inr (svc'\<lparr>Environment := sort_key EnvVar_Name (Environment svc'), EnvFiles := []\<rparr>)))"

text \<open>
  The loop returns at the first error and leaves the entries not yet visited, and the
  one that failed, as they were: the result is the error, if any, with the entries.
\<close>

fun translateEnvVarsLoop ::
  "EnvCollab \<Rightarrow> (string \<times> Service) list \<Rightarrow> error option \<times> (string \<times> Service) list" where
  "translateEnvVarsLoop c [] = (None, [])"
| "translateEnvVarsLoop c ((name, svc) # rest) =
     (case translateServiceEnvVars c svc of
        Inl err \<Rightarrow> (Some err, (name, svc) # rest)
      | Inr svc' \<Rightarrow>
          (case translateEnvVarsLoop c rest of
             (err, rest') \<Rightarrow> (err, (name, svc') # rest')))"

definition translateStackEnvVars :: "EnvCollab \<Rightarrow> Stack \<Rightarrow> error option \<times> Stack" where
  "translateStackEnvVars c s =
     (case translateEnvVarsLoop c (Services s) of
        (err, services) \<Rightarrow> (err, s\<lparr>Services := services\<rparr>))"

subsection \<open>Build orchestration\<close>

record RunArgs =
  run_namespace :: string
  run_buildKitHost :: string
  run_isOktetoCluster :: bool
  run_context :: string
  run_dockerfile :: string
  run_image :: string
  run_target :: string
  run_noCache :: bool
  run_cacheFrom :: "string list"
  run_buildArgs :: "string list"

text \<open>
  The collaborators of the build: \<^verbatim>\<open>build.GetBuildKitHost\<close>,
  \<^verbatim>\<open>registry.GetImageTagWithDigest\<close>, \<^verbatim>\<open>model.SerializeBuildArgs\<close>, \<^verbatim>\<open>build.Run\<close>, and
  the clock as \<^verbatim>\<open>SetLastBuiltAnnotation\<close> prints it.
\<close>

record BuildCollab =
  GetBuildKitHost :: "error + (string \<times> bool)"
  GetImageTagWithDigest :: "string \<Rightarrow> string \<Rightarrow> error + string"
  SerializeBuildArgs :: "EnvVar list \<Rightarrow> string list"
  build_Run :: "RunArgs \<Rightarrow> error option"
  TimeNow :: string

text \<open>What the function does to the outside, in order: calls and log lines.\<close>

datatype event =
    Lookup string string
  | Run RunArgs
  | LogImageNotFound string
  | LogRunningBuild string
  | LogBuilding string
  | LogPushed string
  | LogIgnoringBuild

definition SetLastBuiltAnnotation :: "okLabels \<Rightarrow> BuildCollab \<Rightarrow> Service \<Rightarrow> Service" where
  "SetLastBuiltAnnotation k c svc =
     svc\<lparr>Annotations := AList.update (LastBuiltAnnotation k) (TimeNow c) (Annotations svc)\<rparr>"

text \<open>The image that the managed cluster rule gives the service (lines 131 to 133).\<close>

definition targetImage :: "bool \<Rightarrow> Stack \<Rightarrow> string \<Rightarrow> Service \<Rightarrow> string" where
  "targetImage isOktetoCluster s name svc =
     (if isOktetoCluster \<and> \<not> HasPrefix (Image svc) ''okteto.dev''
      then ''okteto.dev/'' @ Name s @ ''-'' @ name @ '':okteto''
      else Image svc)"

definition runArgs :: "BuildCollab \<Rightarrow> Stack \<Rightarrow> string \<Rightarrow> bool \<Rightarrow> bool \<Rightarrow> BuildInfo \<Rightarrow> string \<Rightarrow> RunArgs" where
  "runArgs c s buildKitHost isOktetoCluster noCache b img =
     \<lparr>run_namespace = Namespace s, run_buildKitHost = buildKitHost,
      run_isOktetoCluster = isOktetoCluster, run_context = Build_Context b,
      run_dockerfile = Build_Dockerfile b, run_image = img, run_target = Build_Target b,
      run_noCache = noCache, run_cacheFrom = Build_CacheFrom b,
      run_buildArgs = SerializeBuildArgs c (Build_Args b)\<rparr>"

text \<open>
  One iteration of the loop of \<^verbatim>\<open>translateBuildImages\<close>: the error, if any, the entry
  of the service as the iteration leaves it in \<^verbatim>\<open>s.Services\<close>, the flag
  \<^verbatim>\<open>building\<close>, and the events of the iteration.
\<close>

definition translateBuildImage ::
  "okLabels \<Rightarrow> BuildCollab \<Rightarrow> string \<Rightarrow> bool \<Rightarrow> bool \<Rightarrow> bool \<Rightarrow> Stack \<Rightarrow> bool \<Rightarrow> string \<Rightarrow> Service
     \<Rightarrow> error option \<times> Service \<times> bool \<times> event list" where
  "translateBuildImage k c buildKitHost isOktetoCluster forceBuild noCache s building name svc =
     (case Build svc of
        None \<Rightarrow> (None, svc, building, [])
      | Some b \<Rightarrow>
          if \<not> isOktetoCluster \<and> Image svc = [] then (Some (BuildAndImageEmpty name), svc, building, [])
          else
            (let svc1 = svc\<lparr>Image := targetImage isOktetoCluster s name svc\<rparr> in
             if \<not> forceBuild \<and> GetImageTagWithDigest c (Namespace s) (Image svc1) \<noteq> Inl ErrNotFound
             then (None, svc1, building, [Lookup (Namespace s) (Image svc1)])
             else
               (let args = runArgs c s buildKitHost isOktetoCluster noCache b (Image svc1);
                    evs = (if \<not> forceBuild
                           then [Lookup (Namespace s) (Image svc1), LogImageNotFound (Image svc1)]
                           else [])
                          @ (if \<not> building then [LogRunningBuild buildKitHost] else [])
                          @ [LogBuilding name, Run args]
                in case build_Run c args of
                     Some err \<Rightarrow> (Some (BuildFailed name err), svc, True, evs)
                   | None \<Rightarrow> (None, SetLastBuiltAnnotation k c svc1, True, evs @ [LogPushed name]))))"

fun translateBuildLoop ::
  "okLabels \<Rightarrow> BuildCollab \<Rightarrow> string \<Rightarrow> bool \<Rightarrow> bool \<Rightarrow> bool \<Rightarrow> Stack \<Rightarrow> bool \<Rightarrow> (string \<times> Service) list
     \<Rightarrow> error option \<times> (string \<times> Service) list \<times> bool \<times> event list" where
  "translateBuildLoop k c h m fb nc s building [] = (None, [], building, [])"
| "translateBuildLoop k c h m fb nc s building ((name, svc) # rest) =
     (case translateBuildImage k c h m fb nc s building name svc of
        (Some err, svc', building', evs) \<Rightarrow> (Some err, (name, svc') # rest, building', evs)
      | (None, svc', building', evs) \<Rightarrow>
          (case translateBuildLoop k c h m fb nc s building' rest of
             (err, rest', building'', evs') \<Rightarrow> (err, (name, svc') # rest', building'', evs @ evs')))"

definition translateBuildImages ::
  "okLabels \<Rightarrow> BuildCollab \<Rightarrow> Stack \<Rightarrow> bool \<Rightarrow> bool \<Rightarrow> error option \<times> Stack \<times> event list" where
  "translateBuildImages k c s forceBuild noCache =
     (case GetBuildKitHost c of
        Inl err \<Rightarrow> (Some err, s, [])
      | Inr (buildKitHost, isOktetoCluster) \<Rightarrow>
          (case translateBuildLoop k c buildKitHost isOktetoCluster forceBuild noCache s False (Services s) of
             (Some err, services, building, evs) \<Rightarrow> (Some err, s\<lparr>Services := services\<rparr>, evs)
           | (None, services, building, evs) \<Rightarrow>
               (None, s\<lparr>Services := services\<rparr>,
                evs @ (if \<not> building \<and> forceBuild then [LogIgnoringBuild] else []))))"

subsection \<open>Labels and resources\<close>

definition translateLabels :: "okLabels \<Rightarrow> string \<Rightarrow> Stack \<Rightarrow> (string \<times> string) list" where
  "translateLabels k svcName s =
     (let svcLabels = (case map_of (Services s) svcName of None \<Rightarrow> [] | Some svc \<Rightarrow> Labels svc);
          labels = AList.update (StackServiceNameLabel k) svcName
                     (AList.update (StackNameLabel k) (Name s) [])
      in foldl (\<lambda>labels key.
                  AList.update key (case map_of svcLabels key of None \<Rightarrow> [] | Some v \<Rightarrow> v) labels)
               labels (map fst svcLabels))"

definition translateLabelSelector :: "okLabels \<Rightarrow> string \<Rightarrow> Stack \<Rightarrow> (string \<times> string) list" where
  "translateLabelSelector k svcName s =
     AList.update (StackServiceNameLabel k) svcName (AList.update (StackNameLabel k) (Name s) [])"

datatype ResourceName = ResourceCPU | ResourceMemory

text \<open>
  A \<^verbatim>\<open>ResourceList\<close> is a Go map that may be \<^verbatim>\<open>nil\<close>: \<open>None\<close>. Every write
  of \<^verbatim>\<open>translateResources\<close> to the limits follows an allocation of the map.
\<close>

record ResourceRequirements =
  rr_Limits :: "(ResourceName \<times> Quantity) list option"
  rr_Requests :: "(ResourceName \<times> Quantity) list option"

definition setLimit :: "ResourceName \<Rightarrow> Quantity \<Rightarrow> ResourceRequirements \<Rightarrow> ResourceRequirements" where
  "setLimit n q r = r\<lparr>rr_Limits := map_option (AList.update n q) (rr_Limits r)\<rparr>"

definition translateResources :: "Service \<Rightarrow> ResourceRequirements" where
  "translateResources svc =
     (let result = \<lparr>rr_Limits = None, rr_Requests = None\<rparr>;
          result = (if CPU (Limits (Resources svc)) > 0
                    then setLimit ResourceCPU (CPU (Limits (Resources svc)))
                           (result\<lparr>rr_Limits := Some []\<rparr>)
                    else result);
          result = (if Memory (Limits (Resources svc)) > 0
                    then setLimit ResourceMemory (Memory (Limits (Resources svc)))
                           (if rr_Limits result = None then result\<lparr>rr_Limits := Some []\<rparr> else result)
                    else result);
          result = (if CPU (Requests (Resources svc)) > 0
                    then setLimit ResourceCPU (CPU (Requests (Resources svc)))
                           (result\<lparr>rr_Limits := Some []\<rparr>)
                    else result);
          result = (if Memory (Requests (Resources svc)) > 0
                    then setLimit ResourceMemory (Memory (Requests (Resources svc)))
                           (if rr_Limits result = None then result\<lparr>rr_Limits := Some []\<rparr> else result)
                    else result)
      in result)"

definition limitsOf :: "ResourceRequirements \<Rightarrow> ResourceName \<Rightarrow> Quantity option" where
  "limitsOf r = (case rr_Limits r of None \<Rightarrow> Map.empty | Some l \<Rightarrow> map_of l)"

subsection \<open>Concrete values\<close>

text \<open>The zero value \<^verbatim>\<open>Service{}\<close> of Go, and label keys to run the functions on.\<close>

definition emptyService :: Service where
  "emptyService =
     \<lparr>Labels = [], Annotations = [], Public = False, Image = [], Build = None, Replicas = 0,
      Entrypoint = [], Command = [], Args = [], Environment = [], EnvFiles = [], CapAdd = [],
      CapDrop = [], Healthchecks = False, Ports = [], Expose = [], Volumes = [],
      StopGracePeriod = 0,
      Resources = \<lparr>Limits = \<lparr>CPU = 0, Memory = 0, Storage = \<lparr>Size = 0, Class = []\<rparr>\<rparr>,
                   Requests = \<lparr>CPU = 0, Memory = 0, Storage = \<lparr>Size = 0, Class = []\<rparr>\<rparr>\<rparr>\<rparr>"

definition labelKeys :: okLabels where
  "labelKeys = \<lparr>StackNameLabel = ''stack.okteto.com/name'',
                StackServiceNameLabel = ''stack.okteto.com/service'',
                LastBuiltAnnotation = ''dev.okteto.com/last-built''\<rparr>"

definition stackOf :: "(string \<times> Service) list \<Rightarrow> (string \<times> Endpoint list) list \<Rightarrow> Stack" where
  "stackOf services endpoints =
     \<lparr>Name = ''shop'', Namespace = ''dev'', Services = services, Endpoints = endpoints,
      Manifest = []\<rparr>"


text \<open>
  What the file named \<open>filename\<close> parses to, when it can be read; the entries of an
  environment under one name; and a file system with two environment files.
\<close>

definition envFileMap :: "EnvCollab \<Rightarrow> string \<Rightarrow> (string \<times> string) list option" where
  "envFileMap c filename =
     (case ExpandEnv c filename of
        Inl err \<Rightarrow> None
      | Inr filename' \<Rightarrow>
          (case os_Open c filename' of
             Inl err \<Rightarrow> None
           | Inr f \<Rightarrow> (case StrictParse c f of Inl msg \<Rightarrow> None | Inr envMap \<Rightarrow> Some envMap)))"

definition entriesOf :: "string \<Rightarrow> EnvVar list \<Rightarrow> EnvVar list" where
  "entriesOf n env = filter (\<lambda>e. EnvVar_Name e = n) env"

definition envFilesExample :: EnvCollab where
  "envFilesExample =
     \<lparr>ExpandEnv = Inr, os_Open = Inr,
      StrictParse = (\<lambda>f. if f = ''a.env'' then Inr [(''FOO'', ''1'')]
                          else if f = ''b.env'' then Inr [(''FOO'', ''2''), (''BAR'', ''x'')]
                          else Inl ''no such file'')\<rparr>"

definition envService :: Service where
  "envService = emptyService\<lparr>Image := ''nginx'',
     Environment := [\<lparr>EnvVar_Name = ''PORT'', EnvVar_Value = ''80''\<rparr>],
     EnvFiles := [''a.env'', ''b.env'']\<rparr>"

text \<open>
  The services named by the "Building image" log lines and the images passed to
  \<^verbatim>\<open>build.Run\<close>, in the order of the events; and collaborators to run the build on:
  a registry that holds \<open>okteto.dev/shop-api:okteto\<close>, fails on
  \<open>registry.local/broken\<close> and finds nothing else, and a build that succeeds.
\<close>

fun builtNames :: "event list \<Rightarrow> string list" where
  "builtNames [] = []"
| "builtNames (LogBuilding name # evs) = name # builtNames evs"
| "builtNames (ev # evs) = builtNames evs"

fun runImages :: "event list \<Rightarrow> string list" where
  "runImages [] = []"
| "runImages (Run args # evs) = run_image args # runImages evs"
| "runImages (ev # evs) = runImages evs"

definition buildExample :: "bool \<Rightarrow> BuildCollab" where
  "buildExample managed =
     \<lparr>GetBuildKitHost = Inr (''tcp://buildkit:1234'', managed),
      GetImageTagWithDigest = (\<lambda>namespace img.
         if img = ''okteto.dev/shop-api:okteto'' then Inr ''okteto.dev/shop-api@sha256:0a''
         else if img = ''registry.local/broken'' then Inl (External ''i/o timeout'')
         else Inl ErrNotFound),
      SerializeBuildArgs = map (\<lambda>e. EnvVar_Name e @ ''='' @ EnvVar_Value e),
      build_Run = (\<lambda>args. None),
      TimeNow = ''2020-10-01T10:00:00Z''\<rparr>"

definition buildService :: "string \<Rightarrow> Service" where
  "buildService img =
     emptyService\<lparr>Image := img,
       Build := Some \<lparr>Build_Name = [], Build_Context = ''.'', Build_Dockerfile = ''Dockerfile'',
                      Build_Target = [], Build_CacheFrom = [], Build_Args = []\<rparr>\<rparr>"

section \<open>Properties\<close>

subsection \<open>Validation of endpoints\<close>

lemma IsPortInService_iff: "IsPortInService port portList \<longleftrightarrow> port \<in> set portList"
  by (induction portList) auto

lemma validateEndpointList_None_iff:
  "validateEndpointList s n es = None \<longleftrightarrow>
     (\<forall>e \<in> set es. \<exists>svc. map_of (Services s) (EndpointService e) = Some svc
                          \<and> Port e \<notin> set (Ports svc))"
  by (induction es) (auto simp: IsPortInService_iff split: option.splits)

text \<open>
  C1. Validation should accept an endpoint exactly when its service is declared and its
  port is one of that service's ports. The source tests \<^verbatim>\<open>IsPortInService\<close> without
  the negation: on the stack \<open>shop\<close> with the service \<open>web\<close> on port 80, the endpoint
  \<open>web:80\<close> is refused with the message "does not have port", and the endpoint
  \<open>web:81\<close>, a port the service does not declare, passes validation. An endpoint of
  an undeclared service \<open>db\<close> is refused with the error that names the endpoint group
  and the service.
\<close>

theorem validate_refuses_declared_port:
  "validate (stackOf [(''web'', emptyService\<lparr>Image := ''nginx'', Ports := [80]\<rparr>)]
               [(''api'', [\<lparr>Path = ''/'', EndpointService = ''web'', Port = 80\<rparr>])])
     = Some (EndpointPortMissing ''api'' ''web'' 80)
   \<and> validate (stackOf [(''web'', emptyService\<lparr>Image := ''nginx'', Ports := [80]\<rparr>)]
               [(''api'', [\<lparr>Path = ''/'', EndpointService = ''web'', Port = 81\<rparr>])])
     = None
   \<and> validate (stackOf [(''web'', emptyService\<lparr>Image := ''nginx'', Ports := [80]\<rparr>)]
               [(''api'', [\<lparr>Path = ''/'', EndpointService = ''db'', Port = 80\<rparr>])])
     = Some (EndpointServiceMissing ''api'' ''db'')"
  by (simp add: validate_def validateStackName_def ValidKubeNameRegex_MatchString_def
        HasPrefix_def HasSuffix_def emptyService_def stackOf_def)

subsection \<open>Defaulting\<close>

lemma map_of_defaults:
  "map_of (Services (ReadStack_defaults sbd s)) name =
     map_option (defaultService sbd) (map_of (Services s) name)"
  unfolding ReadStack_defaults_def by (induction "Services s" arbitrary: s) (auto simp: map_of_map)

text \<open>
  C7. A service with \<^verbatim>\<open>entrypoint: [a]\<close> and \<^verbatim>\<open>command: [b]\<close> leaves the defaulting
  loop of \<^verbatim>\<open>ReadStack\<close> with command \<open>[a]\<close> and args \<open>[b]\<close>.
\<close>

theorem entrypoint_promoted:
  assumes "map_of (Services s) name = Some svc" "Entrypoint svc = [a]" "Command svc = [b]"
  shows "\<exists>svc'. map_of (Services (ReadStack_defaults sbd s)) name = Some svc'
           \<and> Command svc' = [a] \<and> Args svc' = [b]"
  using assms by (simp add: map_of_defaults defaultService_def Let_def split: option.splits)

theorem entrypoint_promoted_witness:
  "map_of (Services (stackOf [(''web'', emptyService\<lparr>Entrypoint := [''sh''], Command := [''run'']\<rparr>)] []))
      ''web'' = Some (emptyService\<lparr>Entrypoint := [''sh''], Command := [''run'']\<rparr>)
   \<and> (\<exists>svc'. map_of (Services (ReadStack_defaults id
                  (stackOf [(''web'', emptyService\<lparr>Entrypoint := [''sh''], Command := [''run'']\<rparr>)] [])))
                ''web'' = Some svc'
         \<and> Command svc' = [''sh''] \<and> Args svc' = [''run''])"
proof -
  let ?svc = "emptyService\<lparr>Entrypoint := [''sh''], Command := [''run'']\<rparr>"
  have h: "map_of (Services (stackOf [(''web'', ?svc)] [])) ''web'' = Some ?svc"
    by (simp add: stackOf_def)
  from entrypoint_promoted [OF h, of "''sh''" "''run''" id] h show ?thesis
    by simp
qed

subsection \<open>Resources\<close>

lemma limitsOf_translateResources:
  "limitsOf (translateResources svc) n =
     (let lim = Limits (Resources svc); req = Requests (Resources svc) in
      case n of
        ResourceCPU \<Rightarrow> if 0 < CPU req then Some (CPU req)
                        else if 0 < CPU lim then Some (CPU lim) else None
      | ResourceMemory \<Rightarrow> if 0 < Memory req then Some (Memory req)
                           else if 0 < CPU req then None
                           else if 0 < Memory lim then Some (Memory lim) else None)"
  by (cases n) (simp_all add: limitsOf_def translateResources_def setLimit_def Let_def update_conv')

lemma translateResources_requests: "rr_Requests (translateResources svc) = None"
  by (simp add: translateResources_def setLimit_def Let_def)

lemma limits_positive: "limitsOf (translateResources svc) n = Some q \<Longrightarrow> 0 < q"
  by (cases n) (simp_all add: limitsOf_translateResources Let_def split: if_splits)

lemma translateResources_cpu_request:
  "0 < CPU (Requests (Resources svc)) \<Longrightarrow>
   translateResources svc =
     \<lparr>rr_Limits = Some (if 0 < Memory (Requests (Resources svc))
                        then [(ResourceCPU, CPU (Requests (Resources svc))),
                              (ResourceMemory, Memory (Requests (Resources svc)))]
                        else [(ResourceCPU, CPU (Requests (Resources svc)))]),
      rr_Requests = None\<rparr>"
  by (simp add: translateResources_def setLimit_def Let_def)

text \<open>
  C9. The requirements that \<^verbatim>\<open>translateResources\<close> emits hold an entry only for a
  quantity greater than zero; the requests section is never written, and a CPU or
  memory request greater than zero is the entry of that resource in the limits section.
\<close>

theorem requests_written_as_limits:
  "rr_Requests (translateResources svc) = None
   \<and> (\<forall>n q. limitsOf (translateResources svc) n = Some q \<longrightarrow> 0 < q)
   \<and> (0 < CPU (Requests (Resources svc)) \<longrightarrow>
        limitsOf (translateResources svc) ResourceCPU = Some (CPU (Requests (Resources svc))))
   \<and> (0 < Memory (Requests (Resources svc)) \<longrightarrow>
        limitsOf (translateResources svc) ResourceMemory = Some (Memory (Requests (Resources svc))))"
proof (intro conjI allI impI)
  show "rr_Requests (translateResources svc) = None"
    by (rule translateResources_requests)
next
  fix n q assume "limitsOf (translateResources svc) n = Some q"
  then show "0 < q" by (rule limits_positive)
next
  assume "0 < CPU (Requests (Resources svc))"
  then show "limitsOf (translateResources svc) ResourceCPU = Some (CPU (Requests (Resources svc)))"
    by (simp add: limitsOf_translateResources Let_def)
next
  assume "0 < Memory (Requests (Resources svc))"
  then show "limitsOf (translateResources svc) ResourceMemory = Some (Memory (Requests (Resources svc)))"
    by (simp add: limitsOf_translateResources Let_def)
qed

theorem requests_written_as_limits_witness:
  "0 < CPU (Requests (Resources (emptyService\<lparr>Resources :=
       \<lparr>Limits = \<lparr>CPU = 0, Memory = 0, Storage = \<lparr>Size = 0, Class = []\<rparr>\<rparr>,
        Requests = \<lparr>CPU = 250, Memory = 64, Storage = \<lparr>Size = 0, Class = []\<rparr>\<rparr>\<rparr>\<rparr>)))
   \<and> limitsOf (translateResources (emptyService\<lparr>Resources :=
       \<lparr>Limits = \<lparr>CPU = 0, Memory = 0, Storage = \<lparr>Size = 0, Class = []\<rparr>\<rparr>,
        Requests = \<lparr>CPU = 250, Memory = 64, Storage = \<lparr>Size = 0, Class = []\<rparr>\<rparr>\<rparr>\<rparr>)) ResourceCPU = Some 250
   \<and> limitsOf (translateResources (emptyService\<lparr>Resources :=
       \<lparr>Limits = \<lparr>CPU = 0, Memory = 0, Storage = \<lparr>Size = 0, Class = []\<rparr>\<rparr>,
        Requests = \<lparr>CPU = 250, Memory = 64, Storage = \<lparr>Size = 0, Class = []\<rparr>\<rparr>\<rparr>\<rparr>)) ResourceMemory = Some 64
   \<and> rr_Requests (translateResources (emptyService\<lparr>Resources :=
       \<lparr>Limits = \<lparr>CPU = 0, Memory = 0, Storage = \<lparr>Size = 0, Class = []\<rparr>\<rparr>,
        Requests = \<lparr>CPU = 250, Memory = 64, Storage = \<lparr>Size = 0, Class = []\<rparr>\<rparr>\<rparr>\<rparr>)) = None"
  using requests_written_as_limits [of "emptyService\<lparr>Resources :=
       \<lparr>Limits = \<lparr>CPU = 0, Memory = 0, Storage = \<lparr>Size = 0, Class = []\<rparr>\<rparr>,
        Requests = \<lparr>CPU = 250, Memory = 64, Storage = \<lparr>Size = 0, Class = []\<rparr>\<rparr>\<rparr>\<rparr>"]
  by simp

text \<open>
  C10. When the CPU request is greater than zero, \<^verbatim>\<open>translateResources\<close> starts the
  limits map afresh at the CPU request: the emitted limits hold the CPU request, the
  memory request when that is greater than zero, and nothing else, whatever CPU and
  memory limits the service declares. A declared memory limit is absent from the output
  unless a memory request takes its place.
\<close>

theorem cpu_request_discards_limits:
  assumes "0 < CPU (Requests (Resources svc))"
  shows "translateResources svc =
           \<lparr>rr_Limits = Some (if 0 < Memory (Requests (Resources svc))
                              then [(ResourceCPU, CPU (Requests (Resources svc))),
                                    (ResourceMemory, Memory (Requests (Resources svc)))]
                              else [(ResourceCPU, CPU (Requests (Resources svc)))]),
            rr_Requests = None\<rparr>
         \<and> (\<not> 0 < Memory (Requests (Resources svc)) \<longrightarrow>
              limitsOf (translateResources svc) ResourceMemory = None)"
proof
  show "translateResources svc =
           \<lparr>rr_Limits = Some (if 0 < Memory (Requests (Resources svc))
                              then [(ResourceCPU, CPU (Requests (Resources svc))),
                                    (ResourceMemory, Memory (Requests (Resources svc)))]
                              else [(ResourceCPU, CPU (Requests (Resources svc)))]),
            rr_Requests = None\<rparr>"
    using assms by (rule translateResources_cpu_request)
next
  show "\<not> 0 < Memory (Requests (Resources svc)) \<longrightarrow>
          limitsOf (translateResources svc) ResourceMemory = None"
    using assms by (simp add: limitsOf_translateResources Let_def)
qed

theorem cpu_request_discards_limits_witness:
  "0 < CPU (Requests (Resources (emptyService\<lparr>Resources :=
       \<lparr>Limits = \<lparr>CPU = 2000, Memory = 512, Storage = \<lparr>Size = 0, Class = []\<rparr>\<rparr>,
        Requests = \<lparr>CPU = 250, Memory = 0, Storage = \<lparr>Size = 0, Class = []\<rparr>\<rparr>\<rparr>\<rparr>)))
   \<and> translateResources (emptyService\<lparr>Resources :=
       \<lparr>Limits = \<lparr>CPU = 2000, Memory = 512, Storage = \<lparr>Size = 0, Class = []\<rparr>\<rparr>,
        Requests = \<lparr>CPU = 250, Memory = 0, Storage = \<lparr>Size = 0, Class = []\<rparr>\<rparr>\<rparr>\<rparr>)
      = \<lparr>rr_Limits = Some [(ResourceCPU, 250)], rr_Requests = None\<rparr>
   \<and> limitsOf (translateResources (emptyService\<lparr>Resources :=
       \<lparr>Limits = \<lparr>CPU = 2000, Memory = 512, Storage = \<lparr>Size = 0, Class = []\<rparr>\<rparr>,
        Requests = \<lparr>CPU = 250, Memory = 0, Storage = \<lparr>Size = 0, Class = []\<rparr>\<rparr>\<rparr>\<rparr>)) ResourceMemory = None"
proof -
  let ?svc = "emptyService\<lparr>Resources :=
       \<lparr>Limits = \<lparr>CPU = 2000, Memory = 512, Storage = \<lparr>Size = 0, Class = []\<rparr>\<rparr>,
        Requests = \<lparr>CPU = 250, Memory = 0, Storage = \<lparr>Size = 0, Class = []\<rparr>\<rparr>\<rparr>\<rparr>"
  have h: "0 < CPU (Requests (Resources ?svc))" by simp
  from cpu_request_discards_limits [OF h] h show ?thesis by (simp add: limitsOf_def)
qed

subsection \<open>Labels\<close>

lemma map_of_foldl_update:
  "map_of (foldl (\<lambda>labels key. AList.update key (f key) labels) acc keys) x =
     (if x \<in> set keys then Some (f x) else map_of acc x)"
  by (induction keys arbitrary: acc) (auto simp: update_conv')

lemma map_of_foldl_labels:
  "map_of (foldl (\<lambda>labels key.
                  AList.update key (case map_of svcLabels key of None \<Rightarrow> [] | Some v \<Rightarrow> v) labels)
               acc (map fst svcLabels)) x =
     (case map_of svcLabels x of Some v \<Rightarrow> Some v | None \<Rightarrow> map_of acc x)"
proof (cases "map_of svcLabels x")
  case None
  then have "x \<notin> set (map fst svcLabels)" by (simp add: map_of_eq_None_iff)
  with None show ?thesis by (simp only: map_of_foldl_update) simp
next
  case (Some v)
  then have "x \<in> set (map fst svcLabels)" by (metis map_of_eq_None_iff option.distinct(1) set_map)
  with Some show ?thesis by (simp only: map_of_foldl_update) simp
qed

lemma map_of_translateLabels:
  "map_of (translateLabels k svcName s) x =
     (case map_of (case map_of (Services s) svcName of None \<Rightarrow> [] | Some svc \<Rightarrow> Labels svc) x of
        Some v \<Rightarrow> Some v
      | None \<Rightarrow> map_of (translateLabelSelector k svcName s) x)"
  unfolding translateLabels_def translateLabelSelector_def Let_def
  by (rule map_of_foldl_labels)

text \<open>
  C4, as the source has it. \<^verbatim>\<open>translateLabels\<close> writes the fixed pair first and
  the user's labels over it. The emitted label set maps the stack-name key to the
  stack's name, and the service-name key to the service's name, unless the user's label
  map holds that key: then the user's value is emitted.
\<close>

theorem labels_fixed_unless_user_sets:
  assumes "StackNameLabel k \<noteq> StackServiceNameLabel k"
    and "map_of (Services s) svcName = Some svc"
  shows "map_of (translateLabels k svcName s) (StackNameLabel k) =
           Some (case map_of (Labels svc) (StackNameLabel k) of None \<Rightarrow> Name s | Some v \<Rightarrow> v)
       \<and> map_of (translateLabels k svcName s) (StackServiceNameLabel k) =
           Some (case map_of (Labels svc) (StackServiceNameLabel k) of None \<Rightarrow> svcName | Some v \<Rightarrow> v)"
  using assms
  by (simp add: map_of_translateLabels translateLabelSelector_def update_conv' split: option.splits)

theorem labels_fixed_unless_user_sets_witness:
  "StackNameLabel labelKeys \<noteq> StackServiceNameLabel labelKeys
   \<and> map_of (translateLabels labelKeys ''web''
             (stackOf [(''web'', emptyService\<lparr>Labels := [(''tier'', ''front'')]\<rparr>)] []))
          (StackNameLabel labelKeys) = Some ''shop''
   \<and> map_of (translateLabels labelKeys ''web''
             (stackOf [(''web'', emptyService\<lparr>Labels := [(''tier'', ''front'')]\<rparr>)] []))
          (StackServiceNameLabel labelKeys) = Some ''web''"
proof -
  let ?svc = "emptyService\<lparr>Labels := [(''tier'', ''front'')]\<rparr>"
  have h1: "StackNameLabel labelKeys \<noteq> StackServiceNameLabel labelKeys"
    by (simp add: labelKeys_def)
  have h2: "map_of (Services (stackOf [(''web'', ?svc)] [])) ''web'' = Some ?svc"
    by (simp add: stackOf_def)
  from labels_fixed_unless_user_sets [OF h1 h2] h1 show ?thesis
    by (simp add: labelKeys_def stackOf_def)
qed

text \<open>
  C4, as stated, fails: a user label under the stack-name key replaces the stack's name
  \<open>shop\<close> in the emitted label set.
\<close>

theorem user_label_overrides_stack_name:
  "map_of (translateLabels labelKeys ''web''
             (stackOf [(''web'', emptyService\<lparr>Labels := [(''stack.okteto.com/name'', ''other'')]\<rparr>)] []))
          (StackNameLabel labelKeys) = Some ''other''
   \<and> Name (stackOf [(''web'', emptyService\<lparr>Labels := [(''stack.okteto.com/name'', ''other'')]\<rparr>)] []) = ''shop''"
  by (simp add: translateLabels_def labelKeys_def stackOf_def emptyService_def)

subsection \<open>A second defaulting pass\<close>











subsection \<open>Environment resolution\<close>

lemma foldl_delete:
  "foldl (\<lambda>m e. AList.delete (EnvVar_Name e) m) m env =
     filter (\<lambda>(k, v). k \<notin> set (map EnvVar_Name env)) m"
proof (induction env arbitrary: m)
  case Nil
  then show ?case by simp
next
  case (Cons e env)
  have "filter (\<lambda>(k, v). k \<notin> set (map EnvVar_Name env)) (AList.delete (EnvVar_Name e) m) =
          filter (\<lambda>(k, v). k \<notin> set (map EnvVar_Name (e # env))) m"
    by (induction m) auto
  then show ?case
    by (simp add: Cons.IH)
qed

lemma translateServiceEnvFile_Inr:
  assumes "translateServiceEnvFile c svc f = Inr svc'"
  obtains m where "envFileMap c f = Some m"
    and "svc' = svc\<lparr>Environment := Environment svc @
            map (\<lambda>(name, value). \<lparr>EnvVar_Name = name, EnvVar_Value = value\<rparr>)
              (filter (\<lambda>(k, v). k \<notin> set (map EnvVar_Name (Environment svc))) m)\<rparr>"
  using assms
  by (auto simp: translateServiceEnvFile_def envFileMap_def foldl_delete Let_def
           split: sum.splits)

lemma entriesOf_file:
  "entriesOf n (map (\<lambda>(name, value). \<lparr>EnvVar_Name = name, EnvVar_Value = value\<rparr>)
                 (filter (\<lambda>(k, v). k \<notin> S) m)) =
     (if n \<in> S then []
      else map (\<lambda>(name, value). \<lparr>EnvVar_Name = name, EnvVar_Value = value\<rparr>)
             (filter (\<lambda>(k, v). k = n) m))"
  by (induction m) (auto simp: entriesOf_def)

lemma filter_key_distinct:
  "distinct (map fst m) \<Longrightarrow>
   filter (\<lambda>(k, v). k = n) m = (case map_of m n of None \<Rightarrow> [] | Some v \<Rightarrow> [(n, v)])"
proof (induction m)
  case Nil
  then show ?case by simp
next
  case (Cons p m)
  obtain k v where p: "p = (k, v)" by (cases p)
  show ?case
  proof (cases "k = n")
    case True
    with Cons.prems p have "n \<notin> fst ` set m" by simp
    then have "filter (\<lambda>(k, v). k = n) m = []" by (force simp: filter_empty_conv)
    with True p show ?thesis by simp
  next
    case False
    with Cons p show ?thesis by simp
  qed
qed

lemma filter_key_absent:
  "n \<notin> fst ` set m \<Longrightarrow> filter (\<lambda>(k, v). k = n) m = []"
  by (force simp: filter_empty_conv)


lemma entriesOf_empty_iff: "entriesOf n env = [] \<longleftrightarrow> n \<notin> set (map EnvVar_Name env)"
  by (auto simp: entriesOf_def filter_empty_conv)

lemma entriesOf_append: "entriesOf n (xs @ ys) = entriesOf n xs @ entriesOf n ys"
  by (simp add: entriesOf_def)

lemma envFile_step:
  assumes "translateServiceEnvFile c svc f = Inr svc'"
  obtains m where "envFileMap c f = Some m"
    and "entriesOf n (Environment svc') = entriesOf n (Environment svc) @
           (if n \<in> set (map EnvVar_Name (Environment svc)) then []
            else map (\<lambda>(name, value). \<lparr>EnvVar_Name = name, EnvVar_Value = value\<rparr>)
                   (filter (\<lambda>(k, v). k = n) m))"
proof -
  from assms obtain m where m: "envFileMap c f = Some m"
    and svc': "svc' = svc\<lparr>Environment := Environment svc @
            map (\<lambda>(name, value). \<lparr>EnvVar_Name = name, EnvVar_Value = value\<rparr>)
              (filter (\<lambda>(k, v). k \<notin> set (map EnvVar_Name (Environment svc))) m)\<rparr>"
    by (rule translateServiceEnvFile_Inr)
  have "entriesOf n (Environment svc') = entriesOf n (Environment svc) @
           (if n \<in> set (map EnvVar_Name (Environment svc)) then []
            else map (\<lambda>(name, value). \<lparr>EnvVar_Name = name, EnvVar_Value = value\<rparr>)
                   (filter (\<lambda>(k, v). k = n) m))"
    unfolding svc' by (simp add: entriesOf_append entriesOf_file)
  with m show thesis by (rule that)
qed

lemma envFiles_explicit:
  assumes "translateServiceEnvFiles c svc fs = Inr svc'"
    and "n \<in> set (map EnvVar_Name (Environment svc))"
  shows "entriesOf n (Environment svc') = entriesOf n (Environment svc)"
  using assms
proof (induction fs arbitrary: svc)
  case Nil
  then show ?case by simp
next
  case (Cons f fs)
  from Cons.prems(1) obtain svc1 where 1: "translateServiceEnvFile c svc f = Inr svc1"
    and 2: "translateServiceEnvFiles c svc1 fs = Inr svc'"
    by (auto split: sum.splits)
  from 1 obtain m where "entriesOf n (Environment svc1) = entriesOf n (Environment svc) @
           (if n \<in> set (map EnvVar_Name (Environment svc)) then []
            else map (\<lambda>(name, value). \<lparr>EnvVar_Name = name, EnvVar_Value = value\<rparr>)
                   (filter (\<lambda>(k, v). k = n) m))"
    by (rule envFile_step)
  with Cons.prems(2) have eq: "entriesOf n (Environment svc1) = entriesOf n (Environment svc)"
    by simp
  from Cons.prems(2) have "entriesOf n (Environment svc) \<noteq> []"
    by (simp only: entriesOf_empty_iff) simp
  with eq have "n \<in> set (map EnvVar_Name (Environment svc1))"
    by (metis entriesOf_empty_iff)
  with Cons.IH [OF 2] eq show ?case by simp
qed

lemma envFiles_undefined:
  assumes "translateServiceEnvFiles c svc fs = Inr svc'"
    and "\<forall>g \<in> set fs. \<forall>m. envFileMap c g = Some m \<longrightarrow> n \<notin> fst ` set m"
  shows "entriesOf n (Environment svc') = entriesOf n (Environment svc)"
  using assms
proof (induction fs arbitrary: svc)
  case Nil
  then show ?case by simp
next
  case (Cons f fs)
  from Cons.prems(1) obtain svc1 where 1: "translateServiceEnvFile c svc f = Inr svc1"
    and 2: "translateServiceEnvFiles c svc1 fs = Inr svc'"
    by (auto split: sum.splits)
  from 1 obtain m where m: "envFileMap c f = Some m"
    and e: "entriesOf n (Environment svc1) = entriesOf n (Environment svc) @
           (if n \<in> set (map EnvVar_Name (Environment svc)) then []
            else map (\<lambda>(name, value). \<lparr>EnvVar_Name = name, EnvVar_Value = value\<rparr>)
                   (filter (\<lambda>(k, v). k = n) m))"
    by (rule envFile_step)
  from m Cons.prems(2) have "n \<notin> fst ` set m" by simp
  then have "filter (\<lambda>(k, v). k = n) m = []" by (rule filter_key_absent)
  with e have "entriesOf n (Environment svc1) = entriesOf n (Environment svc)" by simp
  moreover from Cons.prems(2) have "\<forall>g \<in> set fs. \<forall>m. envFileMap c g = Some m \<longrightarrow> n \<notin> fst ` set m"
    by simp
  ultimately show ?case using Cons.IH [OF 2] by simp
qed

lemma envFiles_append:
  "translateServiceEnvFiles c svc (xs @ ys) =
     (case translateServiceEnvFiles c svc xs of
        Inl err \<Rightarrow> Inl err
      | Inr svc1 \<Rightarrow> translateServiceEnvFiles c svc1 ys)"
  by (induction xs arbitrary: svc) (auto split: sum.splits)

lemma envFiles_first:
  assumes run: "translateServiceEnvFiles c svc (pre @ f # post) = Inr svc'"
    and fresh: "n \<notin> set (map EnvVar_Name (Environment svc))"
    and pre: "\<forall>g \<in> set pre. \<forall>m. envFileMap c g = Some m \<longrightarrow> n \<notin> fst ` set m"
    and f: "envFileMap c f = Some m" "distinct (map fst m)" "map_of m n = Some v"
  shows "entriesOf n (Environment svc') = [\<lparr>EnvVar_Name = n, EnvVar_Value = v\<rparr>]"
proof -
  from run obtain s1 s2 where 1: "translateServiceEnvFiles c svc pre = Inr s1"
    and 2: "translateServiceEnvFile c s1 f = Inr s2"
    and 3: "translateServiceEnvFiles c s2 post = Inr svc'"
    by (auto simp: envFiles_append split: sum.splits)
  from fresh have "entriesOf n (Environment svc) = []" by (simp only: entriesOf_empty_iff) simp
  with envFiles_undefined [OF 1 pre] have e1: "entriesOf n (Environment s1) = []" by simp
  then have fresh1: "n \<notin> set (map EnvVar_Name (Environment s1))" by (simp add: entriesOf_empty_iff)
  from 2 obtain m' where m': "envFileMap c f = Some m'"
    and e: "entriesOf n (Environment s2) = entriesOf n (Environment s1) @
           (if n \<in> set (map EnvVar_Name (Environment s1)) then []
            else map (\<lambda>(name, value). \<lparr>EnvVar_Name = name, EnvVar_Value = value\<rparr>)
                   (filter (\<lambda>(k, v). k = n) m'))"
    by (rule envFile_step)
  from m' f(1) have "m' = m" by simp
  with e e1 fresh1 f(2,3) have e2: "entriesOf n (Environment s2) = [\<lparr>EnvVar_Name = n, EnvVar_Value = v\<rparr>]"
    by (simp add: filter_key_distinct)
  then have "n \<in> set (map EnvVar_Name (Environment s2))"
    by (metis entriesOf_empty_iff list.distinct(1))
  from envFiles_explicit [OF 3 this] e2 show ?thesis by simp
qed


lemma envFiles_keeps_EnvFiles:
  "translateServiceEnvFiles c svc fs = Inr svc' \<Longrightarrow> EnvFiles svc' = EnvFiles svc"
proof (induction fs arbitrary: svc)
  case Nil
  then show ?case by simp
next
  case (Cons f fs)
  from Cons.prems obtain svc1 where 1: "translateServiceEnvFile c svc f = Inr svc1"
    and 2: "translateServiceEnvFiles c svc1 fs = Inr svc'"
    by (auto split: sum.splits)
  from 1 have "EnvFiles svc1 = EnvFiles svc"
    by (rule translateServiceEnvFile_Inr) simp
  with Cons.IH [OF 2] show ?case by simp
qed

lemma translateServiceEnvVars_Inr:
  assumes "translateServiceEnvVars c svc = Inr svc'"
  obtains img svc1 where "ExpandEnv c (Image svc) = Inr img"
    and "translateServiceEnvFiles c (svc\<lparr>Image := img\<rparr>) (EnvFiles svc) = Inr svc1"
    and "svc' = svc1\<lparr>Environment := sort_key EnvVar_Name (Environment svc1), EnvFiles := []\<rparr>"
  using assms by (auto simp: translateServiceEnvVars_def split: sum.splits)

lemma envLoop_lookup:
  assumes "translateEnvVarsLoop c xs = (None, ys)" "map_of xs name = Some svc"
  shows "\<exists>svc'. translateServiceEnvVars c svc = Inr svc' \<and> map_of ys name = Some svc'"
  using assms
proof (induction xs arbitrary: ys)
  case Nil
  then show ?case by simp
next
  case (Cons x xs)
  obtain k v where x: "x = (k, v)" by (cases x)
  from Cons.prems(1) x obtain v' rest where v': "translateServiceEnvVars c v = Inr v'"
    and rest: "translateEnvVarsLoop c xs = (None, rest)" and ys: "ys = (k, v') # rest"
    by (auto split: sum.splits prod.splits)
  show ?case
  proof (cases "k = name")
    case True
    with Cons.prems(2) x have "v = svc" by simp
    with v' ys True show ?thesis by simp
  next
    case False
    with Cons.prems(2) x have "map_of xs name = Some svc" by simp
    from Cons.IH [OF rest this] ys False show ?thesis by simp
  qed
qed

text \<open>
  C2, as the source has it. When \<^verbatim>\<open>translateStackEnvVars\<close> succeeds, the environment
  of every service is sorted by name and its env-file references are cleared. For a name
  with explicit entries, the entries under that name are the explicit ones and no other.
  For a name with no explicit entry, the value comes from the first declared env file
  that defines it: every name that is already in the environment, explicit or from an
  earlier file, is deleted from the parsed map of a file before the rest is appended.
\<close>

theorem env_resolution:
  assumes "translateStackEnvVars c s = (None, s')" and "map_of (Services s) name = Some svc"
  shows "\<exists>svc'. map_of (Services s') name = Some svc'
           \<and> sorted (map EnvVar_Name (Environment svc'))
           \<and> EnvFiles svc' = []
           \<and> (\<forall>n. n \<in> set (map EnvVar_Name (Environment svc)) \<longrightarrow>
                 entriesOf n (Environment svc') = entriesOf n (Environment svc))
           \<and> (\<forall>n pre f post m v.
                 EnvFiles svc = pre @ f # post
                 \<and> n \<notin> set (map EnvVar_Name (Environment svc))
                 \<and> (\<forall>g \<in> set pre. \<forall>m'. envFileMap c g = Some m' \<longrightarrow> n \<notin> fst ` set m')
                 \<and> envFileMap c f = Some m \<and> distinct (map fst m) \<and> map_of m n = Some v
                 \<longrightarrow> entriesOf n (Environment svc') = [\<lparr>EnvVar_Name = n, EnvVar_Value = v\<rparr>])"
proof -
  from assms(1) obtain ys where loop: "translateEnvVarsLoop c (Services s) = (None, ys)"
    and s': "Services s' = ys"
    by (auto simp: translateStackEnvVars_def split: prod.splits)
  from envLoop_lookup [OF loop assms(2)] obtain svc'
    where body: "translateServiceEnvVars c svc = Inr svc'" and look: "map_of ys name = Some svc'"
    by blast
  from body obtain img svc1 where
    files: "translateServiceEnvFiles c (svc\<lparr>Image := img\<rparr>) (EnvFiles svc) = Inr svc1"
    and svc': "svc' = svc1\<lparr>Environment := sort_key EnvVar_Name (Environment svc1), EnvFiles := []\<rparr>"
    by (rule translateServiceEnvVars_Inr)
  have stable: "entriesOf n (Environment svc') = entriesOf n (Environment svc1)" for n
    unfolding svc' by (simp add: entriesOf_def sort_key_stable)
  have a: "sorted (map EnvVar_Name (Environment svc'))"
    unfolding svc' by simp
  have b: "EnvFiles svc' = []"
    unfolding svc' by simp
  have c: "entriesOf n (Environment svc') = entriesOf n (Environment svc)"
    if "n \<in> set (map EnvVar_Name (Environment svc))" for n
    using envFiles_explicit [OF files, of n] that stable by simp
  have d: "entriesOf n (Environment svc') = [\<lparr>EnvVar_Name = n, EnvVar_Value = v\<rparr>]"
    if "EnvFiles svc = pre @ f # post"
       "n \<notin> set (map EnvVar_Name (Environment svc))"
       "\<forall>g \<in> set pre. \<forall>m'. envFileMap c g = Some m' \<longrightarrow> n \<notin> fst ` set m'"
       "envFileMap c f = Some m" "distinct (map fst m)" "map_of m n = Some v"
    for n pre f post m v
  proof -
    from files that(1) have "translateServiceEnvFiles c (svc\<lparr>Image := img\<rparr>) (pre @ f # post) = Inr svc1"
      by simp
    moreover from that(2) have "n \<notin> set (map EnvVar_Name (Environment (svc\<lparr>Image := img\<rparr>)))"
      by simp
    ultimately have "entriesOf n (Environment svc1) = [\<lparr>EnvVar_Name = n, EnvVar_Value = v\<rparr>]"
      using that(3-6) by (rule envFiles_first)
    with stable show ?thesis by simp
  qed
  from look s' a b c d show ?thesis by blast
qed

theorem env_resolution_witness:
  "translateStackEnvVars envFilesExample (stackOf [(''web'', envService)] [])
     = (None, stackOf [(''web'', envService\<lparr>Environment :=
          [\<lparr>EnvVar_Name = ''BAR'', EnvVar_Value = ''x''\<rparr>,
           \<lparr>EnvVar_Name = ''FOO'', EnvVar_Value = ''1''\<rparr>,
           \<lparr>EnvVar_Name = ''PORT'', EnvVar_Value = ''80''\<rparr>], EnvFiles := []\<rparr>)] [])
   \<and> map_of (Services (stackOf [(''web'', envService)] [])) ''web'' = Some envService
   \<and> (\<exists>svc'. map_of (Services (stackOf [(''web'', envService\<lparr>Environment :=
          [\<lparr>EnvVar_Name = ''BAR'', EnvVar_Value = ''x''\<rparr>,
           \<lparr>EnvVar_Name = ''FOO'', EnvVar_Value = ''1''\<rparr>,
           \<lparr>EnvVar_Name = ''PORT'', EnvVar_Value = ''80''\<rparr>], EnvFiles := []\<rparr>)] [])) ''web'' = Some svc'
         \<and> sorted (map EnvVar_Name (Environment svc'))
         \<and> EnvFiles svc' = []
         \<and> entriesOf ''PORT'' (Environment svc') = entriesOf ''PORT'' (Environment envService)
         \<and> entriesOf ''FOO'' (Environment svc') = [\<lparr>EnvVar_Name = ''FOO'', EnvVar_Value = ''1''\<rparr>])"
proof -
  let ?s = "stackOf [(''web'', envService)] []"
  let ?s' = "stackOf [(''web'', envService\<lparr>Environment :=
          [\<lparr>EnvVar_Name = ''BAR'', EnvVar_Value = ''x''\<rparr>,
           \<lparr>EnvVar_Name = ''FOO'', EnvVar_Value = ''1''\<rparr>,
           \<lparr>EnvVar_Name = ''PORT'', EnvVar_Value = ''80''\<rparr>], EnvFiles := []\<rparr>)] []"
  have h1: "translateStackEnvVars envFilesExample ?s = (None, ?s')"
    by (simp add: translateStackEnvVars_def translateServiceEnvVars_def translateServiceEnvFile_def
        envFilesExample_def envService_def stackOf_def emptyService_def less_eq_char_def less_char_def
        List_Lexorder.list_le_def List_Lexorder.list_less_def)
  have h2: "map_of (Services ?s) ''web'' = Some envService"
    by (simp add: stackOf_def)
  from env_resolution [OF h1 h2] obtain svc' where
    1: "map_of (Services ?s') ''web'' = Some svc'"
    and 2: "sorted (map EnvVar_Name (Environment svc'))"
    and 3: "EnvFiles svc' = []"
    and 4: "\<forall>n. n \<in> set (map EnvVar_Name (Environment envService)) \<longrightarrow>
                 entriesOf n (Environment svc') = entriesOf n (Environment envService)"
    and 5: "\<forall>n pre f post m v.
                 EnvFiles envService = pre @ f # post
                 \<and> n \<notin> set (map EnvVar_Name (Environment envService))
                 \<and> (\<forall>g \<in> set pre. \<forall>m'. envFileMap envFilesExample g = Some m' \<longrightarrow> n \<notin> fst ` set m')
                 \<and> envFileMap envFilesExample f = Some m \<and> distinct (map fst m) \<and> map_of m n = Some v
                 \<longrightarrow> entriesOf n (Environment svc') = [\<lparr>EnvVar_Name = n, EnvVar_Value = v\<rparr>]"
    by blast
  have "''PORT'' \<in> set (map EnvVar_Name (Environment envService))"
    by (simp add: envService_def)
  with 4 have 6: "entriesOf ''PORT'' (Environment svc') = entriesOf ''PORT'' (Environment envService)"
    by blast
  have "EnvFiles envService = [] @ ''a.env'' # [''b.env'']
        \<and> ''FOO'' \<notin> set (map EnvVar_Name (Environment envService))
        \<and> (\<forall>g \<in> set []. \<forall>m'. envFileMap envFilesExample g = Some m' \<longrightarrow> ''FOO'' \<notin> fst ` set m')
        \<and> envFileMap envFilesExample ''a.env'' = Some [(''FOO'', ''1'')]
        \<and> distinct (map fst [(''FOO'', ''1'')]) \<and> map_of [(''FOO'', ''1'')] ''FOO'' = Some ''1''"
    by (simp add: envService_def envFileMap_def envFilesExample_def)
  with 5 have 7: "entriesOf ''FOO'' (Environment svc') = [\<lparr>EnvVar_Name = ''FOO'', EnvVar_Value = ''1''\<rparr>]"
    by blast
  from h1 h2 1 2 3 6 7 show ?thesis by blast
qed

text \<open>
  C2, as stated, fails where it says that the last declared file wins. The files
  \<open>a.env\<close> and \<open>b.env\<close>, declared in this order, both define \<open>FOO\<close>, as \<open>1\<close>
  and as \<open>2\<close>; the resolved environment holds \<open>FOO=1\<close>, the value of the first.
\<close>

theorem last_env_file_does_not_win:
  "envFileMap envFilesExample ''a.env'' = Some [(''FOO'', ''1'')]
   \<and> envFileMap envFilesExample ''b.env'' = Some [(''FOO'', ''2''), (''BAR'', ''x'')]
   \<and> EnvFiles envService = [''a.env'', ''b.env'']
   \<and> translateStackEnvVars envFilesExample (stackOf [(''web'', envService)] [])
     = (None, stackOf [(''web'', envService\<lparr>Environment :=
          [\<lparr>EnvVar_Name = ''BAR'', EnvVar_Value = ''x''\<rparr>,
           \<lparr>EnvVar_Name = ''FOO'', EnvVar_Value = ''1''\<rparr>,
           \<lparr>EnvVar_Name = ''PORT'', EnvVar_Value = ''80''\<rparr>], EnvFiles := []\<rparr>)] [])"
  by (simp add: translateStackEnvVars_def translateServiceEnvVars_def translateServiceEnvFile_def
        envFileMap_def envFilesExample_def envService_def stackOf_def emptyService_def
        less_eq_char_def less_char_def List_Lexorder.list_le_def List_Lexorder.list_less_def)

subsection \<open>The build loop\<close>

lemma builtNames_append: "builtNames (xs @ ys) = builtNames xs @ builtNames ys"
  by (induction xs rule: builtNames.induct) simp_all

lemma runImages_append: "runImages (xs @ ys) = runImages xs @ runImages ys"
  by (induction xs rule: runImages.induct) simp_all

lemma body_no_build:
  "Build svc = None \<Longrightarrow>
   translateBuildImage k c h m fb nc s building name svc = (None, svc, building, [])"
  by (simp add: translateBuildImage_def)

lemma body_config_error:
  "Build svc = Some b \<Longrightarrow> \<not> m \<Longrightarrow> Image svc = [] \<Longrightarrow>
   translateBuildImage k c h m fb nc s building name svc =
     (Some (BuildAndImageEmpty name), svc, building, [])"
  by (simp add: translateBuildImage_def)

lemma body_skip:
  "Build svc = Some b \<Longrightarrow> m \<or> Image svc \<noteq> [] \<Longrightarrow> \<not> fb \<Longrightarrow>
   GetImageTagWithDigest c (Namespace s) (targetImage m s name svc) \<noteq> Inl ErrNotFound \<Longrightarrow>
   translateBuildImage k c h m fb nc s building name svc =
     (None, svc\<lparr>Image := targetImage m s name svc\<rparr>, building,
      [Lookup (Namespace s) (targetImage m s name svc)])"
  by (simp add: translateBuildImage_def Let_def)

lemma body_build:
  "Build svc = Some b \<Longrightarrow> m \<or> Image svc \<noteq> [] \<Longrightarrow>
   fb \<or> GetImageTagWithDigest c (Namespace s) (targetImage m s name svc) = Inl ErrNotFound \<Longrightarrow>
   translateBuildImage k c h m fb nc s building name svc =
     (let img = targetImage m s name svc;
          args = runArgs c s h m nc b img;
          evs = (if \<not> fb then [Lookup (Namespace s) img, LogImageNotFound img] else [])
                @ (if \<not> building then [LogRunningBuild h] else [])
                @ [LogBuilding name, Run args]
      in case build_Run c args of
           Some err \<Rightarrow> (Some (BuildFailed name err), svc, True, evs)
         | None \<Rightarrow> (None, SetLastBuiltAnnotation k c (svc\<lparr>Image := img\<rparr>), True, evs @ [LogPushed name]))"
  by (auto simp add: translateBuildImage_def Let_def split: option.splits)

lemma body_cases [case_names no_build config_error skip build]:
  assumes "Build svc = None \<Longrightarrow> P"
    and "\<And>b. Build svc = Some b \<Longrightarrow> \<not> m \<Longrightarrow> Image svc = [] \<Longrightarrow> P"
    and "\<And>b. Build svc = Some b \<Longrightarrow> m \<or> Image svc \<noteq> [] \<Longrightarrow> \<not> fb \<Longrightarrow>
           GetImageTagWithDigest c (Namespace s) (targetImage m s name svc) \<noteq> Inl ErrNotFound \<Longrightarrow> P"
    and "\<And>b. Build svc = Some b \<Longrightarrow> m \<or> Image svc \<noteq> [] \<Longrightarrow>
           fb \<or> GetImageTagWithDigest c (Namespace s) (targetImage m s name svc) = Inl ErrNotFound \<Longrightarrow> P"
  shows P
  using assms by (cases "Build svc") auto

lemma body_builtNames:
  assumes "translateBuildImage k c h m fb nc s building name svc = (err, svc', building', evs)"
  shows "builtNames evs = [] \<or> builtNames evs = [name]"
proof (cases rule: body_cases [where svc=svc and m=m and fb=fb and c=c and s=s and name=name])
  case no_build
  with assms show ?thesis by (auto simp add: body_no_build)
next
  case (config_error b)
  with assms show ?thesis by (auto simp add: body_config_error)
next
  case (skip b)
  with assms show ?thesis by (auto simp add: body_skip)
next
  case (build b)
  from assms show ?thesis
    unfolding body_build [OF build] Let_def
    by (auto simp: builtNames_append split: option.splits)
qed

lemma body_runImages:
  assumes "translateBuildImage k c h m fb nc s building name svc = (err, svc', building', evs)"
    and "img \<in> set (runImages evs)"
  shows "img = targetImage m s name svc
         \<and> (fb \<or> GetImageTagWithDigest c (Namespace s) img = Inl ErrNotFound)"
proof (cases rule: body_cases [where svc=svc and m=m and fb=fb and c=c and s=s and name=name])
  case no_build
  with assms show ?thesis by (auto simp add: body_no_build)
next
  case (config_error b)
  with assms show ?thesis by (auto simp add: body_config_error)
next
  case (skip b)
  with assms show ?thesis by (auto simp add: body_skip)
next
  case (build b)
  from assms(1) have "runImages evs = [targetImage m s name svc]"
    unfolding body_build [OF build] Let_def
    by (auto simp: runImages_append runArgs_def split: option.splits)
  with assms(2) build(3) show ?thesis by auto
qed

lemma body_image:
  assumes "translateBuildImage k c h m fb nc s building name svc = (None, svc', building', evs)"
    and "Build svc = Some b"
  shows "Image svc' = targetImage m s name svc \<and> (m \<or> Image svc \<noteq> [])"
proof (cases rule: body_cases [where svc=svc and m=m and fb=fb and c=c and s=s and name=name])
  case no_build
  with assms show ?thesis by simp
next
  case (config_error b)
  with assms show ?thesis by (auto simp add: body_config_error)
next
  case (skip b)
  with assms show ?thesis by (auto simp add: body_skip)
next
  case (build b)
  from assms(1) show ?thesis
    unfolding body_build [OF build] Let_def
    using build(2) by (auto simp: SetLastBuiltAnnotation_def split: option.splits)
qed


lemma loop_Cons_cases:
  assumes "translateBuildLoop k c h m fb nc s building ((name, svc) # rest) = (err, ys, b', evs)"
  obtains (stop) e svc1 where "translateBuildImage k c h m fb nc s building name svc = (Some e, svc1, b', evs)"
      "err = Some e" "ys = (name, svc1) # rest"
  | (go) svc1 b1 evs1 rest' evs2 where
      "translateBuildImage k c h m fb nc s building name svc = (None, svc1, b1, evs1)"
      "translateBuildLoop k c h m fb nc s b1 rest = (err, rest', b', evs2)"
      "ys = (name, svc1) # rest'" "evs = evs1 @ evs2"
  using assms by (auto split: prod.splits option.splits)

lemma loop_builtNames:
  "translateBuildLoop k c h m fb nc s building xs = (err, ys, b', evs) \<Longrightarrow>
   subseq (builtNames evs) (map fst xs)"
proof (induction xs arbitrary: building err ys b' evs)
  case Nil
  then show ?case by simp
next
  case (Cons x xs)
  obtain name svc where x: "x = (name, svc)" by (cases x)
  from Cons.prems [unfolded x] show ?case
  proof (cases rule: loop_Cons_cases)
    case (stop e svc1)
    from body_builtNames [OF stop(1)] x show ?thesis by auto
  next
    case (go svc1 b1 evs1 rest' evs2)
    from Cons.IH [OF go(2)] have "subseq (builtNames evs2) (map fst xs)" .
    with body_builtNames [OF go(1)] go(4) x show ?thesis
      by (auto simp: builtNames_append)
  qed
qed

lemma loop_keys:
  "translateBuildLoop k c h m fb nc s building xs = (err, ys, b', evs) \<Longrightarrow>
   map fst ys = map fst xs"
proof (induction xs arbitrary: building err ys b' evs)
  case Nil
  then show ?case by simp
next
  case (Cons x xs)
  obtain name svc where x: "x = (name, svc)" by (cases x)
  from Cons.prems [unfolded x] show ?case
  proof (cases rule: loop_Cons_cases)
    case (stop e svc1)
    with x show ?thesis by simp
  next
    case (go svc1 b1 evs1 rest' evs2)
    from Cons.IH [OF go(2)] go(3) x show ?thesis by simp
  qed
qed

lemma loop_runImages:
  "translateBuildLoop k c h m fb nc s building xs = (err, ys, b', evs) \<Longrightarrow>
   img \<in> set (runImages evs) \<Longrightarrow>
   fb \<or> GetImageTagWithDigest c (Namespace s) img = Inl ErrNotFound"
proof (induction xs arbitrary: building err ys b' evs)
  case Nil
  then show ?case by simp
next
  case (Cons x xs)
  obtain name svc where x: "x = (name, svc)" by (cases x)
  from Cons.prems(1) [unfolded x] show ?case
  proof (cases rule: loop_Cons_cases)
    case (stop e svc1)
    from body_runImages [OF stop(1) Cons.prems(2)] show ?thesis by blast
  next
    case (go svc1 b1 evs1 rest' evs2)
    from Cons.prems(2) go(4) consider "img \<in> set (runImages evs1)" | "img \<in> set (runImages evs2)"
      by (auto simp: runImages_append)
    then show ?thesis
    proof cases
      case 1
      from body_runImages [OF go(1) 1] show ?thesis by blast
    next
      case 2
      from Cons.IH [OF go(2) 2] show ?thesis .
    qed
  qed
qed

lemma loop_lookup:
  assumes "translateBuildLoop k c h m fb nc s building xs = (None, ys, b', evs)"
    and "map_of xs name = Some svc"
  shows "\<exists>b0 svc' b1 evs1. translateBuildImage k c h m fb nc s b0 name svc = (None, svc', b1, evs1)
           \<and> map_of ys name = Some svc' \<and> set (runImages evs1) \<subseteq> set (runImages evs)"
  using assms
proof (induction xs arbitrary: building ys b' evs)
  case Nil
  then show ?case by simp
next
  case (Cons x xs)
  obtain n v where x: "x = (n, v)" by (cases x)
  from Cons.prems(1) [unfolded x] show ?case
  proof (cases rule: loop_Cons_cases)
    case (stop e svc1)
    then show ?thesis by simp
  next
    case (go svc1 b1 evs1 rest' evs2)
    show ?thesis
    proof (cases "n = name")
      case True
      with Cons.prems(2) x have "v = svc" by simp
      with go(1,3,4) True show ?thesis
        by (auto simp: runImages_append intro!: exI)
    next
      case False
      with Cons.prems(2) x have "map_of xs name = Some svc" by simp
      from Cons.IH [OF go(2) this] obtain b0 svc' b2 evs0 where
        "translateBuildImage k c h m fb nc s b0 name svc = (None, svc', b2, evs0)"
        "map_of rest' name = Some svc'" "set (runImages evs0) \<subseteq> set (runImages evs2)"
        by blast
      moreover from this(2) go(3) False have "map_of ys name = Some svc'" by simp
      moreover from \<open>set (runImages evs0) \<subseteq> set (runImages evs2)\<close> go(4)
      have "set (runImages evs0) \<subseteq> set (runImages evs)" by (auto simp: runImages_append)
      ultimately show ?thesis by blast
    qed
  qed
qed

lemma loop_append:
  "translateBuildLoop k c h m fb nc s building (xs @ zs) =
     (case translateBuildLoop k c h m fb nc s building xs of
        (Some e, xs', b', evs) \<Rightarrow> (Some e, xs' @ zs, b', evs)
      | (None, xs', b', evs) \<Rightarrow>
          (case translateBuildLoop k c h m fb nc s b' zs of
             (err, zs', b'', evs') \<Rightarrow> (err, xs' @ zs', b'', evs @ evs')))"
proof (induction xs arbitrary: building)
  case Nil
  then show ?case by (simp split: prod.splits)
next
  case (Cons x xs)
  obtain name svc where x: "x = (name, svc)" by (cases x)
  show ?case
    unfolding x by (simp add: Cons.IH split: prod.splits option.splits)
qed

lemma loop_config_error:
  assumes "fst (translateBuildLoop k c h False fb nc s building pre) = None"
    and "Build svc = Some b" "Image svc = []"
  shows "fst (translateBuildLoop k c h False fb nc s building (pre @ (name, svc) # post))
           = Some (BuildAndImageEmpty name)"
proof -
  from assms(1) obtain xs' b' evs where
    "translateBuildLoop k c h False fb nc s building pre = (None, xs', b', evs)"
    by (cases "translateBuildLoop k c h False fb nc s building pre") auto
  then show ?thesis
    by (simp add: loop_append body_config_error [OF assms(2) _ assms(3)])
qed

lemma loop_fails:
  assumes "(name, svc) \<in> set xs" "Build svc = Some b" "Image svc = []"
  shows "fst (translateBuildLoop k c h False fb nc s building xs) \<noteq> None"
  using assms(1)
proof (induction xs arbitrary: building)
  case Nil
  then show ?case by simp
next
  case (Cons x xs)
  obtain n v where x: "x = (n, v)" by (cases x)
  obtain err v' b1 evs1 where body: "translateBuildImage k c h False fb nc s building n v = (err, v', b1, evs1)"
    by (cases "translateBuildImage k c h False fb nc s building n v") auto
  show ?case
  proof (cases err)
    case (Some e)
    with body x show ?thesis by simp
  next
    case None
    with body have "(n, v) \<noteq> (name, svc)"
      using body_config_error [OF assms(2) _ assms(3), of False k c h fb nc s building name] by auto
    with Cons.prems x have "(name, svc) \<in> set xs" by auto
    from Cons.IH [OF this, of b1] body None x show ?thesis
      by (cases "translateBuildLoop k c h False fb nc s b1 xs") auto
  qed
qed


lemma translateBuildImages_loop:
  assumes "GetBuildKitHost c = Inr (h, m)" "translateBuildImages k c s fb nc = (err, s', evs)"
  obtains ys b' evs0 where "translateBuildLoop k c h m fb nc s False (Services s) = (err, ys, b', evs0)"
    and "s' = s\<lparr>Services := ys\<rparr>" and "builtNames evs = builtNames evs0"
    and "runImages evs = runImages evs0"
  using assms
  by (auto simp: translateBuildImages_def builtNames_append runImages_append
           split: prod.splits option.splits if_splits)

lemma sorted_subseq: "subseq xs ys \<Longrightarrow> sorted ys \<Longrightarrow> sorted xs"
  by (auto simp: subseq_conv_nths sorted_nths)

lemmas build_eval = translateBuildImages_def translateBuildImage_def targetImage_def runArgs_def
  SetLastBuiltAnnotation_def buildExample_def buildService_def stackOf_def emptyService_def
  labelKeys_def HasPrefix_def

text \<open>
  C6, as the source has it. \<^verbatim>\<open>translateBuildImages\<close> ranges over the map
  \<^verbatim>\<open>s.Services\<close> itself, with no sorting: the services are decided in the iteration
  order of the map. The services that are built, in the order of their builds, are a
  subsequence of that order, the entries of the result keep that order, and the builds
  come in name order when the iteration order is the name order.
\<close>

theorem build_order_follows_iteration:
  assumes "translateBuildImages k c s fb nc = (err, s', evs)"
  shows "subseq (builtNames evs) (map fst (Services s))
         \<and> map fst (Services s') = map fst (Services s)
         \<and> (sorted (map fst (Services s)) \<longrightarrow> sorted (builtNames evs))"
proof (cases "GetBuildKitHost c")
  case (Inl e)
  with assms show ?thesis by (auto simp: translateBuildImages_def)
next
  case (Inr p)
  obtain h m where "p = (h, m)" by (cases p)
  with Inr have host: "GetBuildKitHost c = Inr (h, m)" by simp
  from host assms obtain ys b' evs0 where
    loop: "translateBuildLoop k c h m fb nc s False (Services s) = (err, ys, b', evs0)"
    and s': "s' = s\<lparr>Services := ys\<rparr>" and names: "builtNames evs = builtNames evs0"
    by (rule translateBuildImages_loop)
  from loop_builtNames [OF loop] names have 1: "subseq (builtNames evs) (map fst (Services s))"
    by simp
  from loop_keys [OF loop] s' have 2: "map fst (Services s') = map fst (Services s)"
    by simp
  from 1 have 3: "sorted (map fst (Services s)) \<longrightarrow> sorted (builtNames evs)"
    by (auto intro: sorted_subseq)
  from 1 2 3 show ?thesis by blast
qed

theorem build_order_follows_iteration_witness:
  "sorted (map fst (Services (stackOf [(''api'', buildService ''registry.local/api''),
                (''web'', buildService ''registry.local/web'')] [])))
   \<and> subseq (builtNames (snd (snd (translateBuildImages labelKeys (buildExample False)
      (stackOf [(''api'', buildService ''registry.local/api''),
                (''web'', buildService ''registry.local/web'')] []) True False))))
        [''api'', ''web'']
   \<and> sorted (builtNames (snd (snd (translateBuildImages labelKeys (buildExample False)
      (stackOf [(''api'', buildService ''registry.local/api''),
                (''web'', buildService ''registry.local/web'')] []) True False))))"
proof -
  let ?s = "stackOf [(''api'', buildService ''registry.local/api''),
                (''web'', buildService ''registry.local/web'')] []"
  let ?r = "translateBuildImages labelKeys (buildExample False) ?s True False"
  have h: "?r = (fst ?r, fst (snd ?r), snd (snd ?r))" by simp
  have keys: "map fst (Services ?s) = [''api'', ''web'']" by (simp add: stackOf_def)
  have srt: "sorted (map fst (Services ?s))"
    unfolding keys
    by (simp add: less_eq_char_def less_char_def List_Lexorder.list_le_def List_Lexorder.list_less_def)
  from build_order_follows_iteration [OF h] srt
  have "subseq (builtNames (snd (snd ?r))) (map fst (Services ?s)) \<and> sorted (builtNames (snd (snd ?r)))"
    by blast
  with srt keys show ?thesis by (simp only:) 
qed

text \<open>
  C6, as stated, fails: with the services visited in the order \<open>web\<close>, \<open>api\<close> the
  builds run in that order, which is not the name order, and the same two services
  visited in the other order give the other sequence of builds.
\<close>

theorem build_order_not_sorted:
  "builtNames (snd (snd (translateBuildImages labelKeys (buildExample False)
      (stackOf [(''web'', buildService ''registry.local/web''),
                (''api'', buildService ''registry.local/api'')] []) True False)))
     = [''web'', ''api'']
   \<and> \<not> sorted [''web'', ''api'']
   \<and> builtNames (snd (snd (translateBuildImages labelKeys (buildExample False)
      (stackOf [(''api'', buildService ''registry.local/api''),
                (''web'', buildService ''registry.local/web'')] []) True False)))
     = [''api'', ''web'']"
  by (simp add: build_eval less_eq_char_def less_char_def
        List_Lexorder.list_le_def List_Lexorder.list_less_def)

text \<open>
  C5, as the source has it. With \<^verbatim>\<open>forceBuild\<close> false, a service with a build spec
  whose target image the registry lookup does not report as \<^verbatim>\<open>ErrNotFound\<close> (a tag
  with digest was found, or the lookup failed in transport) is never passed to
  \<^verbatim>\<open>build.Run\<close>, and when the function returns no error its entry is the service
  with the target image as its image and nothing else changed; the iteration of the
  loop for that service makes the lookup, raises no error and does nothing else.
  \<^verbatim>\<open>ErrNotFound\<close> is the one lookup result that leads to a build: the image of every call of
  \<^verbatim>\<open>build.Run\<close> was looked up as \<^verbatim>\<open>ErrNotFound\<close>, and a service with that
  lookup result is built when the function returns no error.
\<close>

theorem found_image_skips_build:
  assumes "GetBuildKitHost c = Inr (h, m)" "map_of (Services s) name = Some svc"
    and "Build svc = Some b" "translateBuildImages k c s False nc = (err, s', evs)"
  shows "(GetImageTagWithDigest c (Namespace s) (targetImage m s name svc) \<noteq> Inl ErrNotFound \<longrightarrow>
            targetImage m s name svc \<notin> set (runImages evs)
            \<and> (err = None \<longrightarrow>
                 map_of (Services s') name = Some (svc\<lparr>Image := targetImage m s name svc\<rparr>)))
         \<and> (GetImageTagWithDigest c (Namespace s) (targetImage m s name svc) = Inl ErrNotFound
              \<and> err = None \<longrightarrow> targetImage m s name svc \<in> set (runImages evs))
         \<and> (\<forall>img \<in> set (runImages evs). GetImageTagWithDigest c (Namespace s) img = Inl ErrNotFound)
         \<and> (GetImageTagWithDigest c (Namespace s) (targetImage m s name svc) \<noteq> Inl ErrNotFound
              \<and> (m \<or> Image svc \<noteq> []) \<longrightarrow>
              translateBuildImage k c h m False nc s building name svc =
                (None, svc\<lparr>Image := targetImage m s name svc\<rparr>, building,
                 [Lookup (Namespace s) (targetImage m s name svc)]))"
proof -
  let ?img = "targetImage m s name svc"
  from assms(1,4) obtain ys b' evs0 where
    loop: "translateBuildLoop k c h m False nc s False (Services s) = (err, ys, b', evs0)"
    and s': "s' = s\<lparr>Services := ys\<rparr>" and runs: "runImages evs = runImages evs0"
    by (rule translateBuildImages_loop)
  have only: "\<forall>img \<in> set (runImages evs). GetImageTagWithDigest c (Namespace s) img = Inl ErrNotFound"
    using loop_runImages [OF loop] runs by auto
  have skip: "?img \<notin> set (runImages evs)
              \<and> (err = None \<longrightarrow> map_of (Services s') name = Some (svc\<lparr>Image := ?img\<rparr>))"
    if found: "GetImageTagWithDigest c (Namespace s) ?img \<noteq> Inl ErrNotFound"
  proof
    from only found show "?img \<notin> set (runImages evs)" by blast
    show "err = None \<longrightarrow> map_of (Services s') name = Some (svc\<lparr>Image := ?img\<rparr>)"
    proof
      assume "err = None"
      with loop have "translateBuildLoop k c h m False nc s False (Services s) = (None, ys, b', evs0)"
        by simp
      from loop_lookup [OF this assms(2)] obtain b0 svc' b1 evs1 where
        body: "translateBuildImage k c h m False nc s b0 name svc = (None, svc', b1, evs1)"
        and look: "map_of ys name = Some svc'"
        by blast
      from body_image [OF body assms(3)] have "m \<or> Image svc \<noteq> []" by simp
      from body_skip [OF assms(3) this _ found, of False k h nc b0] body
      have "svc' = svc\<lparr>Image := ?img\<rparr>" by simp
      with look s' show "map_of (Services s') name = Some (svc\<lparr>Image := ?img\<rparr>)" by simp
    qed
  qed
  have build: "?img \<in> set (runImages evs)"
    if nf: "GetImageTagWithDigest c (Namespace s) ?img = Inl ErrNotFound" and ok: "err = None"
  proof -
    from loop ok have "translateBuildLoop k c h m False nc s False (Services s) = (None, ys, b', evs0)"
      by simp
    from loop_lookup [OF this assms(2)] obtain b0 svc' b1 evs1 where
      body: "translateBuildImage k c h m False nc s b0 name svc = (None, svc', b1, evs1)"
      and sub: "set (runImages evs1) \<subseteq> set (runImages evs0)"
      by blast
    from body_image [OF body assms(3)] have ok': "m \<or> Image svc \<noteq> []" by simp
    from nf have nf': "False \<or> GetImageTagWithDigest c (Namespace s) ?img = Inl ErrNotFound" by simp
    from body have "?img \<in> set (runImages evs1)"
      unfolding body_build [OF assms(3) ok' nf'] Let_def
      by (auto simp: runImages_append runArgs_def split: option.splits)
    with sub runs show ?thesis by auto
  qed
  have iter: "translateBuildImage k c h m False nc s building name svc =
                (None, svc\<lparr>Image := ?img\<rparr>, building, [Lookup (Namespace s) ?img])"
    if "GetImageTagWithDigest c (Namespace s) ?img \<noteq> Inl ErrNotFound" "m \<or> Image svc \<noteq> []"
    using assms(3) that(2) _ that(1) by (rule body_skip) simp
  from skip build only iter show ?thesis by blast
qed

theorem found_image_skips_build_witness:
  "GetBuildKitHost (buildExample True) = Inr (''tcp://buildkit:1234'', True)
   \<and> GetImageTagWithDigest (buildExample True) ''dev'' ''okteto.dev/shop-api:okteto''
       = Inr ''okteto.dev/shop-api@sha256:0a''
   \<and> translateBuildImages labelKeys (buildExample True) (stackOf [(''api'', buildService [])] []) False False
       = (None, stackOf [(''api'', buildService ''okteto.dev/shop-api:okteto'')] [],
          [Lookup ''dev'' ''okteto.dev/shop-api:okteto''])
   \<and> ''okteto.dev/shop-api:okteto'' \<notin> set (runImages [Lookup ''dev'' ''okteto.dev/shop-api:okteto''])
   \<and> map_of (Services (stackOf [(''api'', buildService ''okteto.dev/shop-api:okteto'')] [])) ''api''
       = Some (buildService ''okteto.dev/shop-api:okteto'')"
proof -
  let ?c = "buildExample True"
  let ?s = "stackOf [(''api'', buildService [])] []"
  let ?s' = "stackOf [(''api'', buildService ''okteto.dev/shop-api:okteto'')] []"
  let ?evs = "[Lookup ''dev'' ''okteto.dev/shop-api:okteto'']"
  let ?img = "targetImage True ?s ''api'' (buildService [])"
  have h1: "GetBuildKitHost ?c = Inr (''tcp://buildkit:1234'', True)"
    by (simp add: buildExample_def)
  have h2: "map_of (Services ?s) ''api'' = Some (buildService [])"
    by (simp add: stackOf_def)
  have h3: "Build (buildService []) = Some \<lparr>Build_Name = [], Build_Context = ''.'',
              Build_Dockerfile = ''Dockerfile'', Build_Target = [], Build_CacheFrom = [], Build_Args = []\<rparr>"
    by (simp add: buildService_def)
  have h4: "translateBuildImages labelKeys ?c ?s False False = (None, ?s', ?evs)"
    by (simp add: build_eval)
  have img: "?img = ''okteto.dev/shop-api:okteto''"
    by (simp add: build_eval)
  have found: "GetImageTagWithDigest ?c (Namespace ?s) ?img = Inr ''okteto.dev/shop-api@sha256:0a''"
    by (simp add: build_eval)
  then have h5: "GetImageTagWithDigest ?c (Namespace ?s) ?img \<noteq> Inl ErrNotFound"
    by simp
  from found_image_skips_build [OF h1 h2 h3 h4] h5
  have "?img \<notin> set (runImages ?evs)
        \<and> map_of (Services ?s') ''api'' = Some ((buildService [])\<lparr>Image := ?img\<rparr>)"
    by blast
  moreover have "(buildService [])\<lparr>Image := ''okteto.dev/shop-api:okteto''\<rparr>
                   = buildService ''okteto.dev/shop-api:okteto''"
    by (simp add: buildService_def)
  moreover have "GetImageTagWithDigest ?c ''dev'' ''okteto.dev/shop-api:okteto''
       = Inr ''okteto.dev/shop-api@sha256:0a''"
    by (simp add: buildExample_def)
  ultimately show ?thesis using h1 h4 by (simp only: img) simp
qed

text \<open>
  C5, as stated, fails where it calls \<^verbatim>\<open>ErrNotFound\<close> the only skip branch: a lookup
  that fails with an i/o timeout skips the build and raises no error, and a lookup that
  gives \<^verbatim>\<open>ErrNotFound\<close> does not skip it.
\<close>

theorem lookup_failure_skips_build:
  "GetImageTagWithDigest (buildExample False) ''dev'' ''registry.local/broken''
     = Inl (External ''i/o timeout'')
   \<and> translateBuildImages labelKeys (buildExample False)
        (stackOf [(''api'', buildService ''registry.local/broken'')] []) False False
     = (None, stackOf [(''api'', buildService ''registry.local/broken'')] [],
        [Lookup ''dev'' ''registry.local/broken''])
   \<and> GetImageTagWithDigest (buildExample False) ''dev'' ''registry.local/new'' = Inl ErrNotFound
   \<and> runImages (snd (snd (translateBuildImages labelKeys (buildExample False)
        (stackOf [(''api'', buildService ''registry.local/new'')] []) False False)))
     = [''registry.local/new'']"
  by (simp add: build_eval)

text \<open>
  C8. For a service with a build spec: on a managed cluster, when the image does not
  start with \<open>okteto.dev\<close>, the entry that a successful \<^verbatim>\<open>translateBuildImages\<close>
  leaves has the image \<open>okteto.dev/<stack>-<service>:okteto\<close>; off a managed cluster,
  when the image is empty, \<^verbatim>\<open>translateBuildImages\<close> fails, and where the services
  before it in the iteration order raise no error it fails with the error that names
  this service.
\<close>

theorem build_image_rule:
  assumes "GetBuildKitHost c = Inr (h, m)" "Build svc = Some b"
  shows "(m \<and> \<not> HasPrefix (Image svc) ''okteto.dev'' \<and> map_of (Services s) name = Some svc
            \<and> translateBuildImages k c s fb nc = (None, s', evs) \<longrightarrow>
            (\<exists>svc'. map_of (Services s') name = Some svc'
                \<and> Image svc' = ''okteto.dev/'' @ Name s @ ''-'' @ name @ '':okteto''))
         \<and> (\<not> m \<and> Image svc = [] \<and> (name, svc) \<in> set (Services s) \<longrightarrow>
              fst (translateBuildImages k c s fb nc) \<noteq> None)
         \<and> (\<not> m \<and> Image svc = [] \<and> Services s = pre @ (name, svc) # post
              \<and> fst (translateBuildLoop k c h m fb nc s False pre) = None \<longrightarrow>
              fst (translateBuildImages k c s fb nc) = Some (BuildAndImageEmpty name))"
proof (intro conjI impI)
  assume a: "m \<and> \<not> HasPrefix (Image svc) ''okteto.dev'' \<and> map_of (Services s) name = Some svc
            \<and> translateBuildImages k c s fb nc = (None, s', evs)"
  with assms(1) obtain ys b' evs0 where
    loop: "translateBuildLoop k c h m fb nc s False (Services s) = (None, ys, b', evs0)"
    and s': "s' = s\<lparr>Services := ys\<rparr>"
    by (auto elim: translateBuildImages_loop)
  from a have "map_of (Services s) name = Some svc" by simp
  from loop_lookup [OF loop this] obtain b0 svc' b1 evs1 where
    body: "translateBuildImage k c h m fb nc s b0 name svc = (None, svc', b1, evs1)"
    and look: "map_of ys name = Some svc'"
    by blast
  from body_image [OF body assms(2)] a
  have "Image svc' = ''okteto.dev/'' @ Name s @ ''-'' @ name @ '':okteto''"
    by (simp add: targetImage_def)
  with look s' show "\<exists>svc'. map_of (Services s') name = Some svc'
                \<and> Image svc' = ''okteto.dev/'' @ Name s @ ''-'' @ name @ '':okteto''"
    by simp
next
  assume a: "\<not> m \<and> Image svc = [] \<and> (name, svc) \<in> set (Services s)"
  then have "fst (translateBuildLoop k c h False fb nc s False (Services s)) \<noteq> None"
    using loop_fails [OF _ assms(2)] by blast
  with a assms(1) show "fst (translateBuildImages k c s fb nc) \<noteq> None"
    by (auto simp: translateBuildImages_def split: prod.splits option.splits)
next
  assume a: "\<not> m \<and> Image svc = [] \<and> Services s = pre @ (name, svc) # post
              \<and> fst (translateBuildLoop k c h m fb nc s False pre) = None"
  then have pre: "fst (translateBuildLoop k c h False fb nc s False pre) = None"
    and img: "Image svc = []"
    by auto
  have "fst (translateBuildLoop k c h False fb nc s False (pre @ (name, svc) # post))
               = Some (BuildAndImageEmpty name)"
    using pre assms(2) img by (rule loop_config_error)
  with a assms(1) show "fst (translateBuildImages k c s fb nc) = Some (BuildAndImageEmpty name)"
    by (auto simp: translateBuildImages_def split: prod.splits option.splits)
qed

theorem build_image_rule_witness:
  "(\<exists>svc'. map_of (Services (fst (snd (translateBuildImages labelKeys (buildExample True)
              (stackOf [(''api'', buildService [])] []) True False)))) ''api'' = Some svc'
        \<and> Image svc' = ''okteto.dev/shop-api:okteto'')
   \<and> fst (translateBuildImages labelKeys (buildExample False)
              (stackOf [(''api'', buildService [])] []) True False)
       = Some (BuildAndImageEmpty ''api'')"
proof -
  let ?s = "stackOf [(''api'', buildService [])] []"
  let ?b = "\<lparr>Build_Name = [], Build_Context = ''.'',
              Build_Dockerfile = ''Dockerfile'', Build_Target = [], Build_CacheFrom = [], Build_Args = []\<rparr>"
  let ?r = "translateBuildImages labelKeys (buildExample True) ?s True False"
  have b: "Build (buildService []) = Some ?b"
    by (simp add: buildService_def)
  have m1: "GetBuildKitHost (buildExample True) = Inr (''tcp://buildkit:1234'', True)"
    by (simp add: buildExample_def)
  have m2: "GetBuildKitHost (buildExample False) = Inr (''tcp://buildkit:1234'', False)"
    by (simp add: buildExample_def)
  have "fst ?r = None" by (simp add: build_eval)
  then have run: "?r = (None, fst (snd ?r), snd (snd ?r))"
    by (metis prod.collapse)
  have pre1: "True \<and> \<not> HasPrefix (Image (buildService [])) ''okteto.dev''
              \<and> map_of (Services ?s) ''api'' = Some (buildService []) \<and> ?r = (None, fst (snd ?r), snd (snd ?r))"
    using run by (simp add: buildService_def HasPrefix_def stackOf_def)
  from build_image_rule [OF m1 b, where s = ?s and name = "''api''" and k = labelKeys and fb = True
      and nc = False and s' = "fst (snd ?r)" and evs = "snd (snd ?r)"] pre1
  have 1: "\<exists>svc'. map_of (Services (fst (snd ?r))) ''api'' = Some svc'
                \<and> Image svc' = ''okteto.dev/'' @ Name ?s @ ''-'' @ ''api'' @ '':okteto''"
    by blast
  have pre2: "\<not> False \<and> Image (buildService []) = [] \<and> Services ?s = [] @ (''api'', buildService []) # []
              \<and> fst (translateBuildLoop labelKeys (buildExample False) ''tcp://buildkit:1234'' False
                        True False ?s False []) = None"
    by (simp add: buildService_def stackOf_def)
  from build_image_rule [OF m2 b, where s = ?s and name = "''api''" and pre = "[]" and post = "[]"
      and k = labelKeys and fb = True and nc = False] pre2
  have 2: "fst (translateBuildImages labelKeys (buildExample False) ?s True False)
             = Some (BuildAndImageEmpty ''api'')"
    by blast
  have name: "''okteto.dev/'' @ Name ?s @ ''-'' @ ''api'' @ '':okteto'' = ''okteto.dev/shop-api:okteto''"
    by (simp add: stackOf_def)
  from 1 2 show ?thesis unfolding name by blast
qed


end
